theory Spec2Isabelle
  imports Main "HOL-Library.Signed_Division"
begin

section \<open>Data model of \<^verbatim>\<open>llama_ros/src/llama.cpp\<close>\<close>

text \<open>
  The class \<^verbatim>\<open>Llama\<close> drives an inference backend. The embedding keeps the
  fields of the class in one record, passes it explicitly through every method, and
  takes the backend's functions (tokenizer, detokenizer, sampler, grammar parser) as
  a record of functions. Token ids and counters are C \<^verbatim>\<open>int\<close>s, modelled as
  integers; where the budget \<^verbatim>\<open>n_remain\<close> is computed with, the 32 bits of an
  \<^verbatim>\<open>int\<close> and the 64 bits of a \<^verbatim>\<open>size_t\<close> are written out. Floating point
  values (probabilities, embeddings) are opaque: the type variable \<open>'f\<close>.
\<close>

type_synonym llama_token = int

record 'f completion_output =
  token :: llama_token
  probs :: "(llama_token \<times> 'f) list"

text \<open>The fields of \<^verbatim>\<open>gpt_params\<close> the file reads. \<open>grammar_text\<close> is
  \<^verbatim>\<open>params.grammar\<close>. \<^verbatim>\<open>is_embedding()\<close> is declared in the header, which is
  not among the sources: what it returns is the parameter \<open>embedding\<close>.\<close>

record gpt_params =
  n_batch :: int
  n_keep :: int
  n_predict :: int
  n_probs :: int
  antiprompt :: "string list"
  input_prefix :: string
  input_suffix :: string
  grammar_text :: string
  embedding :: bool

text \<open>What \<^verbatim>\<open>grammar_parser::parse\<close> returns, as far as \<^verbatim>\<open>load_grammar\<close>
  looks at it: the rules (empty on a parse error) and the id of the symbol
  \<^verbatim>\<open>"root"\<close> when there is one.\<close>

record parse_state =
  rules :: "nat list"
  root_symbol :: "nat option"

text \<open>
  The backend. \<open>llama_sample_token B k\<close> is the token and the candidate list the
  \<open>k\<close>-th call of \<^verbatim>\<open>llama_sample_token\<close> on this context returns;
  \<open>cancel_requested B k\<close> tells whether another thread has called \<^verbatim>\<open>cancel()\<close>
  by the time iteration \<open>k\<close> of the running generation loop reads the flag.
\<close>

record 'f backend =
  llama_n_ctx :: nat
  llama_token_bos :: llama_token
  llama_token_eos :: llama_token
  llama_tokenize :: "string \<Rightarrow> bool \<Rightarrow> llama_token list"
  llama_detokenize_bpe :: "llama_token list \<Rightarrow> string"
  llama_sample_token :: "nat \<Rightarrow> llama_token \<times> (llama_token \<times> 'f) list"
  grammar_parse :: "string \<Rightarrow> parse_state"
  llama_n_embd :: int
  llama_get_embeddings :: "(llama_token list \<times> int) list \<Rightarrow> nat \<Rightarrow> 'f"
  cancel_requested :: "nat \<Rightarrow> bool"

text \<open>
  The session. After the fields of the class come four fields that stand for the
  state behind the opaque pointers: \<open>ctx_evals\<close> lists the calls of
  \<^verbatim>\<open>llama_eval\<close> (tokens, position) made so far, \<open>ctx_samples\<close> counts the calls
  of \<^verbatim>\<open>llama_sample_token\<close>, \<open>grammars_made\<close> counts the handles
  \<^verbatim>\<open>llama_grammar_init\<close> has returned (the next handle is that number) and
  \<open>grammars_freed\<close> lists the handles given to \<^verbatim>\<open>llama_grammar_free\<close>.
  \<^verbatim>\<open>n_consumed\<close> is only ever set to 0 and incremented: a natural number.
\<close>

record llama =
  params :: gpt_params
  inp_pfx :: "llama_token list"
  inp_sfx :: "llama_token list"
  inp_stop :: "llama_token list"
  last_n_tokens :: "llama_token list"
  prompt_tokens :: "llama_token list"
  batch_tokens :: "llama_token list"
  is_antiprompt :: bool
  canceled :: bool
  n_past :: int
  n_remain :: int
  n_consumed :: nat
  grammar :: "nat option"
  parsed_grammar :: parse_state
  ctx_evals :: "(llama_token list \<times> int) list"
  ctx_samples :: nat
  grammars_made :: nat
  grammars_freed :: "nat list"

text \<open>
  What the C++ does not define, or throws, is a value of the model:
  \<^item> \<open>Out_Of_Range\<close>: \<^verbatim>\<open>std::out_of_range\<close> from \<^verbatim>\<open>.at()\<close>;
  \<^item> \<open>Erase_Empty_Window\<close>: \<^verbatim>\<open>last_n_tokens.erase(begin())\<close> on an empty vector;
  \<^item> \<open>Slice_Out_Of_Range\<close>: the iterator range of the eviction's \<^verbatim>\<open>insert\<close>
    leaves \<^verbatim>\<open>last_n_tokens\<close> or is reversed;
  \<^item> \<open>Batch_Not_Positive\<close>: the chunk loop with \<^verbatim>\<open>n_batch <= 0\<close> (it does not
    advance, or hands a negative count to the backend);
  \<^item> \<open>Back_Of_Empty_Batch\<close>: \<^verbatim>\<open>batch_tokens.back()\<close> on an empty vector;
  \<^item> \<open>Signed_Overflow\<close>: \<^verbatim>\<open>--n_remain\<close> at the least \<^verbatim>\<open>int\<close>.
\<close>

datatype fault =
  Out_Of_Range
  | Erase_Empty_Window
  | Slice_Out_Of_Range
  | Batch_Not_Positive
  | Back_Of_Empty_Batch
  | Signed_Overflow

section \<open>Small helpers\<close>

text \<open>\<^verbatim>\<open>v.at(0)\<close>.\<close>

definition at0 :: "'a list \<Rightarrow> fault + 'a" where
  "at0 xs = (case xs of [] \<Rightarrow> Inl Out_Of_Range | x # _ \<Rightarrow> Inr x)"

text \<open>\<^verbatim>\<open>last_n_tokens.erase(last_n_tokens.begin()); last_n_tokens.push_back(t)\<close>.\<close>

definition push_history :: "llama_token list \<Rightarrow> llama_token \<Rightarrow> fault + llama_token list" where
  "push_history w t = (case w of [] \<Rightarrow> Inl Erase_Empty_Window | _ # r \<Rightarrow> Inr (r @ [t]))"

text \<open>\<^verbatim>\<open>get_n_ctx()\<close> is declared in the header, which is not among the sources:
  the context capacity it returns is the backend's parameter \<open>llama_n_ctx\<close>, a
  count, read as a C \<^verbatim>\<open>int\<close>.\<close>

definition get_n_ctx :: "'f backend \<Rightarrow> int" where
  "get_n_ctx B = int (llama_n_ctx B)"

section \<open>\<^verbatim>\<open>Llama::eval\<close>\<close>

text \<open>The first loop of \<^verbatim>\<open>eval\<close> (lines 323-330): prompt tokens move into the
  batch and the history window until the prompt is consumed or the batch is full.\<close>

function drain :: "llama \<Rightarrow> fault + llama" where
  "drain s =
     (if n_consumed s < length (prompt_tokens s)
         \<and> int (length (batch_tokens s)) < n_batch (params s)
      then (case push_history (last_n_tokens s) (prompt_tokens s ! n_consumed s) of
              Inl e \<Rightarrow> Inl e
            | Inr w \<Rightarrow>
                drain (s\<lparr>batch_tokens := batch_tokens s @ [prompt_tokens s ! n_consumed s],
                         last_n_tokens := w,
                         n_consumed := Suc (n_consumed s)\<rparr>))
      else Inr s)"
  by pat_completeness auto
termination
  by (relation "measure (\<lambda>s. length (prompt_tokens s) - n_consumed s)") auto

text \<open>Context swapping (lines 340-352). \<^verbatim>\<open>n_left / 2\<close> is C's truncating division.
  The inserted range is \<^verbatim>\<open>[begin + n_ctx - n_left/2 - size, end - size)\<close> of
  \<^verbatim>\<open>last_n_tokens\<close>, with \<^verbatim>\<open>size\<close> the batch's size before the insert.\<close>

definition evict :: "'f backend \<Rightarrow> llama \<Rightarrow> fault + llama" where
  "evict B s =
     (if n_past s + int (length (batch_tokens s)) > get_n_ctx B
      then (let n_left = n_past s - n_keep (params s);
                first = get_n_ctx B - n_left sdiv 2 - int (length (batch_tokens s));
                lst = int (length (last_n_tokens s)) - int (length (batch_tokens s))
            in if 0 \<le> first \<and> first \<le> lst
               then Inr (s\<lparr>n_past := n_keep (params s),
                           batch_tokens :=
                             take (nat (lst - first)) (drop (nat first) (last_n_tokens s))
                               @ batch_tokens s\<rparr>)
               else Inl Slice_Out_Of_Range)
      else Inr s)"

text \<open>The chunk loop (lines 357-374), from index \<open>i\<close>: each chunk of at most
  \<^verbatim>\<open>n_batch\<close> tokens goes to \<^verbatim>\<open>llama_eval\<close> with the current position, which then
  advances by the chunk's length. The result of \<^verbatim>\<open>llama_eval\<close> only decides a
  message on stderr. The loop is entered with a positive \<^verbatim>\<open>n_batch\<close> only (see
  \<open>Batch_Not_Positive\<close>).\<close>

function eval_chunks ::
  "int \<Rightarrow> llama_token list \<Rightarrow> nat \<Rightarrow> int \<Rightarrow> (llama_token list \<times> int) list
     \<Rightarrow> int \<times> (llama_token list \<times> int) list" where
  "eval_chunks nb toks i np evs =
     (if i < length toks \<and> 0 < nb
      then (let n_eval = (if int (length toks) - int i > nb then nb
                          else int (length toks) - int i)
            in eval_chunks nb toks (i + nat nb) (np + n_eval)
                 (evs @ [(take (nat n_eval) (drop i toks), np)]))
      else (np, evs))"
  by pat_completeness auto
termination
  by (relation "measure (\<lambda>(nb, toks, i, np, evs). length toks - i)") auto

definition eval :: "'f backend \<Rightarrow> llama \<Rightarrow> fault + llama" where
  "eval B s =
     (case drain s of
        Inl e \<Rightarrow> Inl e
      | Inr s1 \<Rightarrow>
          if length (batch_tokens s1) > 0
          then (case evict B s1 of
                  Inl e \<Rightarrow> Inl e
                | Inr s2 \<Rightarrow>
                    if n_batch (params s2) \<le> 0 then Inl Batch_Not_Positive
                    else (let (np, evs) = eval_chunks (n_batch (params s2)) (batch_tokens s2) 0
                                            (n_past s2) (ctx_evals s2)
                          in Inr (s2\<lparr>n_past := np, ctx_evals := evs, batch_tokens := []\<rparr>)))
          else Inr s1)"

section \<open>Tokenizer wrappers, sampling and the grammar\<close>

definition tokenize :: "'f backend \<Rightarrow> string \<Rightarrow> bool \<Rightarrow> llama_token list" where
  "tokenize B text add_bos = llama_tokenize B text add_bos"

definition detokenize :: "'f backend \<Rightarrow> llama_token list \<Rightarrow> string" where
  "detokenize B tokens = llama_detokenize_bpe B tokens"

text \<open>\<^verbatim>\<open>Llama::sample\<close>. The logit bias changes the backend's logits only; the
  chosen token and the candidates are the backend's answer to this call. The loop
  over the candidates copies the first \<^verbatim>\<open>min(candidates.size(), (size_t)n_probs)\<close>.\<close>

definition sample :: "'f backend \<Rightarrow> llama \<Rightarrow> 'f completion_output \<times> llama" where
  "sample B s =
     (let (id, candidates) = llama_sample_token B (ctx_samples s);
          n = min (length candidates) (nat (n_probs (params s) mod 2 ^ 64))
      in (\<lparr>token = id, probs = take n candidates\<rparr>,
          s\<lparr>ctx_samples := Suc (ctx_samples s)\<rparr>))"

text \<open>The output \<^verbatim>\<open>sample\<close> builds from the backend's \<open>k\<close>-th answer.\<close>

definition nth_output :: "'f backend \<Rightarrow> gpt_params \<Rightarrow> nat \<Rightarrow> 'f completion_output" where
  "nth_output B p k =
     (let (id, candidates) = llama_sample_token B k;
          n = min (length candidates) (nat (n_probs p mod 2 ^ 64))
      in \<lparr>token = id, probs = take n candidates\<rparr>)"

text \<open>\<^verbatim>\<open>Llama::load_grammar\<close>: no handle for an empty text or a parse without
  rules; \<^verbatim>\<open>symbol_ids.at("root")\<close> throws when the grammar has no root; otherwise
  \<^verbatim>\<open>llama_grammar_init\<close> returns a fresh handle.\<close>

definition load_grammar :: "'f backend \<Rightarrow> llama \<Rightarrow> string \<Rightarrow> fault + (nat option \<times> llama)" where
  "load_grammar B s grammar_txt =
     (if grammar_txt \<noteq> []
      then (let s1 = s\<lparr>parsed_grammar := grammar_parse B grammar_txt\<rparr>
            in if rules (parsed_grammar s1) = [] then Inr (None, s1)
               else (case root_symbol (parsed_grammar s1) of
                       None \<Rightarrow> Inl Out_Of_Range
                     | Some r \<Rightarrow>
                         Inr (Some (grammars_made s1),
                              s1\<lparr>grammars_made := Suc (grammars_made s1)\<rparr>)))
      else Inr (None, s))"

text \<open>Lines 313-316: \<^verbatim>\<open>llama_grammar_free\<close> and the pointer set to \<^verbatim>\<open>NULL\<close>.\<close>

definition free_grammar :: "llama \<Rightarrow> llama" where
  "free_grammar s =
     (case grammar s of
        None \<Rightarrow> s
      | Some h \<Rightarrow> s\<lparr>grammar := None, grammars_freed := grammars_freed s @ [h]\<rparr>)"

text \<open>The handles that were made and not freed.\<close>

definition live_grammars :: "llama \<Rightarrow> nat list" where
  "live_grammars s = filter (\<lambda>h. h \<notin> set (grammars_freed s)) [0 ..< grammars_made s]"

section \<open>Constructor, \<^verbatim>\<open>reset\<close>, \<^verbatim>\<open>cancel\<close>\<close>

text \<open>The constructor (lines 32-78). \<^verbatim>\<open>prompt_tokens\<close> is empty when
  \<^verbatim>\<open>n_keep == -1\<close> is replaced by its size. The grammar pointer and the parsed
  grammar start empty. The warm-up run is the first call of \<^verbatim>\<open>llama_eval\<close>.\<close>

definition Llama :: "'f backend \<Rightarrow> gpt_params \<Rightarrow> fault + llama" where
  "Llama B p =
     (case at0 (antiprompt p) of
        Inl e \<Rightarrow> Inl e
      | Inr ap \<Rightarrow>
          Inr \<lparr>params = (if n_keep p = -1 then p\<lparr>n_keep := 0\<rparr> else p),
               inp_pfx = tokenize B (input_prefix p) True,
               inp_sfx = tokenize B (input_suffix p) False,
               inp_stop = tokenize B ap False,
               last_n_tokens = replicate (nat (get_n_ctx B)) 0,
               prompt_tokens = [],
               batch_tokens = [],
               is_antiprompt = False,
               canceled = False,
               n_past = 0,
               n_remain = n_predict p,
               n_consumed = 0,
               grammar = None,
               parsed_grammar = \<lparr>rules = [], root_symbol = None\<rparr>,
               ctx_evals = [([llama_token_bos B], 0)],
               ctx_samples = 0,
               grammars_made = 0,
               grammars_freed = []\<rparr>)"

definition reset :: "'f backend \<Rightarrow> llama \<Rightarrow> llama" where
  "reset B s =
     s\<lparr>last_n_tokens := replicate (nat (get_n_ctx B)) 0,
       is_antiprompt := False,
       canceled := False,
       n_past := 0,
       n_remain := n_predict (params s),
       n_consumed := 0,
       prompt_tokens := [],
       batch_tokens := []\<rparr>"

definition cancel :: "llama \<Rightarrow> llama" where
  "cancel s = s\<lparr>canceled := True\<rparr>"

section \<open>\<^verbatim>\<open>Llama::generate_embeddings\<close>\<close>

definition generate_embeddings :: "'f backend \<Rightarrow> llama \<Rightarrow> string \<Rightarrow> fault + ('f list \<times> llama)" where
  "generate_embeddings B s input_prompt =
     (if \<not> embedding (params s) then Inr ([], s)
      else (let tokens = tokenize B input_prompt True
            in if 0 < length tokens \<and> n_batch (params s) \<le> 0 then Inl Batch_Not_Positive
               else (let (np, evs) = eval_chunks (n_batch (params s)) tokens 0 0 (ctx_evals s)
                     in Inr (map (llama_get_embeddings B evs) [0 ..< nat (llama_n_embd B)],
                             s\<lparr>ctx_evals := evs\<rparr>))))"

section \<open>\<^verbatim>\<open>Llama::generate_response\<close>\<close>

text \<open>\<^verbatim>\<open>std::string::find(s, pos, n)\<close> with \<open>n\<close> the needle's length: the first
  index from \<open>pos\<close> on at which the needle stands, \<open>None\<close> for \<^verbatim>\<open>npos\<close>.\<close>

function string_find :: "string \<Rightarrow> string \<Rightarrow> nat \<Rightarrow> nat option" where
  "string_find hay needle pos =
     (if pos + length needle \<le> length hay
      then (if take (length needle) (drop pos hay) = needle then Some pos
            else string_find hay needle (Suc pos))
      else None)"
  by pat_completeness auto
termination
proof (relation "measure (\<lambda>(hay, needle, pos). length hay - pos)")
  show "wf (measure (\<lambda>(hay :: string, needle :: string, pos). length hay - pos))"
    by simp
next
  fix hay needle :: string and pos :: nat
  assume le: "pos + length needle \<le> length hay"
    and ne: "take (length needle) (drop pos hay) \<noteq> needle"
  from ne have "needle \<noteq> []" by auto
  with le have "pos < length hay" by (cases needle) auto
  then show "((hay, needle, Suc pos), (hay, needle, pos))
               \<in> measure (\<lambda>(hay, needle, pos). length hay - pos)"
    by simp
qed

text \<open>Subtraction of two \<^verbatim>\<open>size_t\<close> (64 bits): it wraps.\<close>

definition size_t_sub :: "nat \<Rightarrow> nat \<Rightarrow> nat" where
  "size_t_sub a b = nat ((int a - int b) mod 2 ^ 64)"

text \<open>Line 198, \<^verbatim>\<open>n_remain -= line_inp.size()\<close>, with an \<^verbatim>\<open>int\<close> on the left
  and a \<^verbatim>\<open>size_t\<close> on the right: the \<^verbatim>\<open>int\<close> is converted to \<^verbatim>\<open>size_t\<close>, the
  difference is taken in \<^verbatim>\<open>size_t\<close> (64 bits, it wraps), and the result is
  narrowed to an \<^verbatim>\<open>int\<close> (its low 32 bits, in two's complement).\<close>

definition int_minus_size_t :: "int \<Rightarrow> nat \<Rightarrow> int" where
  "int_minus_size_t r n =
     (let u = (r mod 2 ^ 64 - int n mod 2 ^ 64) mod 2 ^ 64;
          m = u mod 2 ^ 32
      in if m < 2 ^ 31 then m else m - 2 ^ 32)"

text \<open>The test of lines 237-241 on the detokenized history window.\<close>

definition antiprompt_found :: "string \<Rightarrow> string \<Rightarrow> bool" where
  "antiprompt_found last_output ap =
     (length ap \<noteq> 0
      \<and> string_find last_output ap (size_t_sub (length last_output) (length ap)) \<noteq> None)"

text \<open>The locals of \<^verbatim>\<open>generate_response\<close> that live across iterations.
  \<open>delivered\<close> lists what the callback has received.\<close>

record 'f gen_locals =
  input_noecho :: bool
  stopping :: bool
  response :: "'f completion_output list"
  completion_result_list :: "'f completion_output list"
  delivered :: "'f completion_output list"

datatype flow = Break | Continue

text \<open>Lines 184-196: prefix, tokenized input, suffix.\<close>

definition insert_prompt :: "llama \<Rightarrow> llama_token list \<Rightarrow> bool \<Rightarrow> llama" where
  "insert_prompt s line_inp add_pfx_sfx =
     (let s1 = (if add_pfx_sfx \<and> length (input_prefix (params s)) \<noteq> 0 \<and> \<not> is_antiprompt s
                then s\<lparr>prompt_tokens := prompt_tokens s @ inp_pfx s\<rparr> else s);
          s2 = s1\<lparr>prompt_tokens := prompt_tokens s1 @ line_inp\<rparr>
      in if add_pfx_sfx \<and> length (input_suffix (params s2)) \<noteq> 0
         then s2\<lparr>prompt_tokens := prompt_tokens s2 @ inp_sfx s2\<rparr> else s2)"

text \<open>Lines 229-259: once the prompt is consumed, the antiprompt test on the
  history window, then one sampled token. \<^verbatim>\<open>--n_remain\<close> is a signed decrement:
  below the least \<^verbatim>\<open>int\<close> it is not defined.\<close>

definition sampling_branch ::
  "'f backend \<Rightarrow> llama \<Rightarrow> 'f gen_locals \<Rightarrow> fault + (flow \<times> llama \<times> 'f gen_locals)" where
  "sampling_branch B s l =
     (if int (length (prompt_tokens s)) \<le> int (n_consumed s)
      then (let last_output = detokenize B (last_n_tokens s);
                s1 = s\<lparr>is_antiprompt := False\<rparr>
            in case at0 (antiprompt (params s1)) of
                 Inl e \<Rightarrow> Inl e
               | Inr ap \<Rightarrow>
                   if antiprompt_found last_output ap
                   then Inr (Break, s1\<lparr>is_antiprompt := True\<rparr>, l)
                   else (let (completion_result, s2) = sample B s1
                         in case push_history (last_n_tokens s2) (token completion_result) of
                              Inl e \<Rightarrow> Inl e
                            | Inr w \<Rightarrow>
                                if n_remain s2 - 1 < - (2 ^ 31) then Inl Signed_Overflow
                                else Inr (Continue,
                                     s2\<lparr>batch_tokens := batch_tokens s2 @ [token completion_result],
                                        last_n_tokens := w,
                                        n_remain := n_remain s2 - 1\<rparr>,
                                     l\<lparr>completion_result_list :=
                                          completion_result_list l @ [completion_result],
                                       input_noecho := False\<rparr>)))
      else Inr (Continue, s, l))"

text \<open>The loop of lines 276-281 over the buffered outputs and the stop tokens.\<close>

fun stop_scan :: "'f completion_output list \<Rightarrow> llama_token list \<Rightarrow> fault + bool" where
  "stop_scan [] ts = Inr True"
| "stop_scan (c # cs) [] = Inl Out_Of_Range"
| "stop_scan (c # cs) (t # ts) = (if token c \<noteq> t then Inr False else stop_scan cs ts)"

text \<open>Lines 271-289.\<close>

definition check_stop :: "llama \<Rightarrow> 'f gen_locals \<Rightarrow> fault + (flow \<times> 'f gen_locals)" where
  "check_stop s l =
     (if length (completion_result_list l) \<le> length (inp_stop s)
      then (case at0 (antiprompt (params s)) of
              Inl e \<Rightarrow> Inl e
            | Inr ap \<Rightarrow>
                if length ap \<noteq> 0
                then (case stop_scan (completion_result_list l) (inp_stop s) of
                        Inl e \<Rightarrow> Inl e
                      | Inr st \<Rightarrow>
                          if st \<and> length (completion_result_list l) = length (inp_stop s)
                          then Inr (Break, l\<lparr>stopping := st\<rparr>)
                          else Inr (Continue, l\<lparr>stopping := st\<rparr>))
                else Inr (Continue, l\<lparr>stopping := False\<rparr>))
      else Inr (Continue, l\<lparr>stopping := False\<rparr>))"

text \<open>Lines 292-302: every buffered output goes to the callback (when there is
  one) and to the response, in order; the buffer is cleared.\<close>

definition send_text :: "bool \<Rightarrow> 'f gen_locals \<Rightarrow> 'f gen_locals" where
  "send_text callback l =
     (if \<not> input_noecho l
      then (if \<not> stopping l
            then l\<lparr>response := response l @ completion_result_list l,
                   delivered := delivered l
                     @ (if callback then completion_result_list l else []),
                   completion_result_list := []\<rparr>
            else l)
      else l)"

text \<open>Lines 261-308: what an iteration does after the sampling branch. The flag
  \<^verbatim>\<open>canceled\<close> is read once per iteration; here another thread's \<^verbatim>\<open>cancel()\<close>
  becomes visible.\<close>

definition after_sampling ::
  "'f backend \<Rightarrow> bool \<Rightarrow> nat \<Rightarrow> llama \<Rightarrow> 'f gen_locals
     \<Rightarrow> fault + (flow \<times> llama \<times> 'f gen_locals)" where
  "after_sampling B callback k s l =
     (if batch_tokens s = [] then Inl Back_Of_Empty_Batch
      else if last (batch_tokens s) = llama_token_eos B then Inr (Break, s, l)
      else (let s3 = s\<lparr>canceled := canceled s \<or> cancel_requested B k\<rparr>
            in if canceled s3 then Inr (Break, s3, l)
               else (case check_stop s3 l of
                       Inl e \<Rightarrow> Inl e
                     | Inr (Break, l3) \<Rightarrow> Inr (Break, s3, l3)
                     | Inr (Continue, l3) \<Rightarrow>
                         (let l4 = send_text callback l3
                          in if n_remain s3 \<le> 0 \<and> n_predict (params s3) \<noteq> - 1
                             then Inr (Break, s3\<lparr>n_remain := n_predict (params s3)\<rparr>, l4)
                             else Inr (Continue, s3, l4)))))"

text \<open>One iteration of the generation loop (lines 227-308), the \<open>k\<close>-th of the call.\<close>

definition loop_body ::
  "'f backend \<Rightarrow> bool \<Rightarrow> nat \<Rightarrow> llama \<Rightarrow> 'f gen_locals
     \<Rightarrow> fault + (flow \<times> llama \<times> 'f gen_locals)" where
  "loop_body B callback k s l =
     (case eval B s of
        Inl e \<Rightarrow> Inl e
      | Inr s1 \<Rightarrow>
          (case sampling_branch B s1 l of
             Inl e \<Rightarrow> Inl e
           | Inr (Break, s2, l2) \<Rightarrow> Inr (Break, s2, l2)
           | Inr (Continue, s2, l2) \<Rightarrow> after_sampling B callback k s2 l2))"

text \<open>
  The loop may run forever (\<^verbatim>\<open>n_predict == -1\<close>), so it runs on fuel: one unit
  per iteration. \<open>Finished\<close> is the loop left (by its guard or a \<^verbatim>\<open>break\<close>),
  \<open>Faulted\<close> a fault, \<open>Unfinished\<close> the state reached when the fuel is spent and
  the loop would go on.
\<close>

datatype 'a outcome = Finished 'a | Faulted fault | Unfinished 'a

fun gen_loop ::
  "nat \<Rightarrow> 'f backend \<Rightarrow> bool \<Rightarrow> nat \<Rightarrow> llama \<Rightarrow> 'f gen_locals
     \<Rightarrow> (llama \<times> 'f gen_locals) outcome" where
  "gen_loop 0 B callback k s l =
     (if n_remain s \<noteq> 0 then Unfinished (s, l) else Finished (s, l))"
| "gen_loop (Suc fuel) B callback k s l =
     (if n_remain s \<noteq> 0
      then (case loop_body B callback k s l of
              Inl e \<Rightarrow> Faulted e
            | Inr (Break, s', l') \<Rightarrow> Finished (s', l')
            | Inr (Continue, s', l') \<Rightarrow> gen_loop fuel B callback (Suc k) s' l')
      else Finished (s, l))"

text \<open>Lines 153-158: the locals before the loop.\<close>

definition initial_locals :: "'f gen_locals" where
  "initial_locals =
     \<lparr>input_noecho = True, stopping = False, response = [],
      completion_result_list = [], delivered = []\<rparr>"

text \<open>Lines 167-171: the input is tokenized with a BOS only when the session has
  no prompt yet and no framing is asked for.\<close>

definition tokenize_input :: "'f backend \<Rightarrow> llama \<Rightarrow> string \<Rightarrow> bool \<Rightarrow> llama_token list" where
  "tokenize_input B s input_prompt add_pfx_sfx =
     (if length (prompt_tokens s) = 0 \<and> \<not> add_pfx_sfx
      then tokenize B input_prompt True
      else tokenize B input_prompt False)"

text \<open>Lines 167-211: everything between the test for an empty input and the
  loop. The messages on stderr (prompt too long, sampling parameters, the warning
  on a disabled EOS) are left out.\<close>

definition prime :: "'f backend \<Rightarrow> llama \<Rightarrow> string \<Rightarrow> bool \<Rightarrow> fault + llama" where
  "prime B s input_prompt add_pfx_sfx =
     (let line_inp = tokenize_input B s input_prompt add_pfx_sfx;
          s1 = insert_prompt s line_inp add_pfx_sfx;
          s2 = s1\<lparr>n_remain := int_minus_size_t (n_remain s1) (length line_inp)\<rparr>
      in case load_grammar B s2 (grammar_text (params s2)) of
           Inl e \<Rightarrow> Inl e
         | Inr (g, s3) \<Rightarrow> Inr (s3\<lparr>grammar := g\<rparr>))"

text \<open>
  \<^verbatim>\<open>generate_response\<close>. The result pairs the session with the locals at the
  exit: \<open>response\<close> is what the C++ returns, \<open>delivered\<close> what the callback
  received, \<open>completion_result_list\<close> what was still withheld. \<open>callback\<close> tells
  whether a callback was passed.
\<close>

definition generate_response ::
  "nat \<Rightarrow> 'f backend \<Rightarrow> llama \<Rightarrow> string \<Rightarrow> bool \<Rightarrow> bool
     \<Rightarrow> (llama \<times> 'f gen_locals) outcome" where
  "generate_response fuel B s input_prompt add_pfx_sfx callback =
     (let s0 = s\<lparr>canceled := False\<rparr>
      in if length input_prompt \<le> 0 then Finished (s0, initial_locals)
         else (case prime B s0 input_prompt add_pfx_sfx of
                 Inl e \<Rightarrow> Faulted e
               | Inr sp \<Rightarrow>
                   (case gen_loop fuel B callback 0 sp initial_locals of
                      Finished (s4, l) \<Rightarrow> Finished (free_grammar s4, l)
                    | Faulted e \<Rightarrow> Faulted e
                    | Unfinished x \<Rightarrow> Unfinished x)))"

text \<open>What a caller sees of a call: the token ids of the returned response, the
  token ids the callback received, and the session afterwards; \<open>None\<close> when the
  call does not return.\<close>

definition returned_tokens :: "(llama \<times> 'f gen_locals) outcome \<Rightarrow> llama_token list option" where
  "returned_tokens out =
     (case out of Finished (s, l) \<Rightarrow> Some (map token (response l)) | _ \<Rightarrow> None)"

definition callback_tokens :: "(llama \<times> 'f gen_locals) outcome \<Rightarrow> llama_token list option" where
  "callback_tokens out =
     (case out of Finished (s, l) \<Rightarrow> Some (map token (delivered l)) | _ \<Rightarrow> None)"

definition final_session :: "(llama \<times> 'f gen_locals) outcome \<Rightarrow> llama option" where
  "final_session out = (case out of Finished (s, l) \<Rightarrow> Some s | _ \<Rightarrow> None)"

section \<open>Sessions\<close>

text \<open>
  A caller's use of a session is a list of calls of the public methods, made one
  after the other on the object the constructor returned. A call of
  \<^verbatim>\<open>generate_response\<close> carries the number of loop iterations it is granted; a
  call that faults or does not return within them ends the session (\<open>None\<close>).
\<close>

datatype call =
  Reset
  | Cancel
  | Generate_Response nat string bool bool
  | Generate_Embeddings string

fun do_call :: "'f backend \<Rightarrow> llama \<Rightarrow> call \<Rightarrow> llama option" where
  "do_call B s Reset = Some (reset B s)"
| "do_call B s Cancel = Some (cancel s)"
| "do_call B s (Generate_Response fuel input_prompt add_pfx_sfx callback) =
     (case generate_response fuel B s input_prompt add_pfx_sfx callback of
        Finished (s', l) \<Rightarrow> Some s'
      | Faulted e \<Rightarrow> None
      | Unfinished x \<Rightarrow> None)"
| "do_call B s (Generate_Embeddings input_prompt) =
     (case generate_embeddings B s input_prompt of
        Inl e \<Rightarrow> None
      | Inr (v, s') \<Rightarrow> Some s')"

fun session :: "'f backend \<Rightarrow> llama \<Rightarrow> call list \<Rightarrow> llama option" where
  "session B s [] = Some s"
| "session B s (c # cs) =
     (case do_call B s c of None \<Rightarrow> None | Some s' \<Rightarrow> session B s' cs)"

text \<open>What no step of the generation loop changes: the configuration, the prompt,
  the grammar handle and its bookkeeping, and the length of the history window.\<close>

definition same_config :: "llama \<Rightarrow> llama \<Rightarrow> bool" where
  "same_config s s' =
     (params s' = params s \<and> inp_pfx s' = inp_pfx s \<and> inp_sfx s' = inp_sfx s
      \<and> inp_stop s' = inp_stop s \<and> prompt_tokens s' = prompt_tokens s
      \<and> grammar s' = grammar s \<and> parsed_grammar s' = parsed_grammar s
      \<and> grammars_made s' = grammars_made s \<and> grammars_freed s' = grammars_freed s
      \<and> length (last_n_tokens s') = length (last_n_tokens s))"

section \<open>A small backend for concrete runs\<close>

text \<open>
  Letters are tokens: \<open>a\<close> is 1, \<open>b\<close> is 2 and so on; BOS is 1 and EOS is 2, a
  context holds 8 tokens. The sampler answers with the tokens of a given list, in
  order, and with 0 once the list is used up. \<open>cancel_at\<close> is the iteration from
  which a \<^verbatim>\<open>cancel()\<close> of another thread is visible, if any.
\<close>

definition demo_tokenize :: "string \<Rightarrow> bool \<Rightarrow> llama_token list" where
  "demo_tokenize text add_bos =
     (if add_bos then [1] else []) @ map (\<lambda>c. int (of_char c) - 96) text"

definition demo_detokenize :: "llama_token list \<Rightarrow> string" where
  "demo_detokenize tokens = map (\<lambda>t. char_of (t + 96)) tokens"

definition demo_backend :: "llama_token list \<Rightarrow> nat option \<Rightarrow> unit backend" where
  "demo_backend sampled cancel_at =
     \<lparr>llama_n_ctx = 8,
      llama_token_bos = 1,
      llama_token_eos = 2,
      llama_tokenize = demo_tokenize,
      llama_detokenize_bpe = demo_detokenize,
      llama_sample_token = (\<lambda>k. (if k < length sampled then sampled ! k else 0, [])),
      grammar_parse = (\<lambda>t. \<lparr>rules = [0], root_symbol = Some 0\<rparr>),
      llama_n_embd = 2,
      llama_get_embeddings = (\<lambda>evs i. ()),
      cancel_requested = (\<lambda>k. case cancel_at of None \<Rightarrow> False | Some j \<Rightarrow> j \<le> k)\<rparr>"

text \<open>The stop phrase is \<open>ei\<close>: the stop tokens are 5 and 9.\<close>

definition demo_params :: gpt_params where
  "demo_params =
     \<lparr>n_batch = 4, n_keep = - 1, n_predict = - 1, n_probs = 0, antiprompt = [''ei''],
      input_prefix = [], input_suffix = [], grammar_text = [], embedding = False\<rparr>"

text \<open>The session the constructor returns for a set of parameters (see
  \<open>Llama_demo\<close> below).\<close>

definition demo_session :: "gpt_params \<Rightarrow> llama" where
  "demo_session p =
     \<lparr>params = p\<lparr>n_keep := (if n_keep p = - 1 then 0 else n_keep p)\<rparr>,
      inp_pfx = demo_tokenize (input_prefix p) True,
      inp_sfx = demo_tokenize (input_suffix p) False,
      inp_stop = (case antiprompt p of [] \<Rightarrow> [] | ap # _ \<Rightarrow> demo_tokenize ap False),
      last_n_tokens = [0, 0, 0, 0, 0, 0, 0, 0],
      prompt_tokens = [],
      batch_tokens = [],
      is_antiprompt = False,
      canceled = False,
      n_past = 0,
      n_remain = n_predict p,
      n_consumed = 0,
      grammar = None,
      parsed_grammar = \<lparr>rules = [], root_symbol = None\<rparr>,
      ctx_evals = [([1], 0)],
      ctx_samples = 0,
      grammars_made = 0,
      grammars_freed = []\<rparr>"

text \<open>The demo session after one call with the input \<open>ab\<close> in which the sampler
  answered 1, 3, 4, 6, 7 and EOS (see \<open>demo_full_session_reached\<close> below): the
  context is full and the EOS token waits in the batch.\<close>

definition demo_full_session :: llama where
  "demo_full_session =
     (demo_session demo_params)
       \<lparr>last_n_tokens := [1, 2, 1, 3, 4, 6, 7, 2],
        prompt_tokens := [1, 1, 2],
        batch_tokens := [2],
        n_past := 8,
        n_remain := - 10,
        n_consumed := 3,
        ctx_evals := [([1], 0), ([1, 1, 2], 0), ([1], 3), ([3], 4), ([4], 5), ([6], 6),
                      ([7], 7)],
        ctx_samples := 6\<rparr>"

text \<open>The same with room for eight tokens in a batch: the parameters, and the
  session after that first call (see the section on context swapping).\<close>

definition demo_wide_params :: gpt_params where
  "demo_wide_params = demo_params\<lparr>n_batch := 8\<rparr>"

definition demo_wide_full_session :: llama where
  "demo_wide_full_session =
     demo_full_session\<lparr>params := params (demo_session demo_wide_params)\<rparr>"

section \<open>Basic facts about the model\<close>

text \<open>The equations of the three recursive loops are unfolded by hand.\<close>

declare drain.simps [simp del] eval_chunks.simps [simp del] string_find.simps [simp del]

lemma push_history_Inr:
  "push_history w t = Inr w' \<Longrightarrow> w \<noteq> [] \<and> w' = tl w @ [t] \<and> length w' = length w"
  by (cases w) (auto simp: push_history_def)

lemma push_history_length: "push_history w t = Inr w' \<Longrightarrow> length w' = length w"
  by (cases w) (auto simp: push_history_def)

lemma drain_invariant:
  assumes "drain s = Inr s'" and "P s"
    and step: "\<And>x w. P x \<Longrightarrow> n_consumed x < length (prompt_tokens x) \<Longrightarrow>
             int (length (batch_tokens x)) < n_batch (params x) \<Longrightarrow>
             push_history (last_n_tokens x) (prompt_tokens x ! n_consumed x) = Inr w \<Longrightarrow>
             P (x\<lparr>batch_tokens := batch_tokens x @ [prompt_tokens x ! n_consumed x],
                   last_n_tokens := w, n_consumed := Suc (n_consumed x)\<rparr>)"
  shows "P s'"
  using assms(1,2)
proof (induction s rule: drain.induct)
  case (1 s)
  show ?case
  proof (cases "n_consumed s < length (prompt_tokens s)
                  \<and> int (length (batch_tokens s)) < n_batch (params s)")
    case True
    with "1.prems"(1) obtain w where
      w: "push_history (last_n_tokens s) (prompt_tokens s ! n_consumed s) = Inr w" and
      d: "drain (s\<lparr>batch_tokens := batch_tokens s @ [prompt_tokens s ! n_consumed s],
                   last_n_tokens := w, n_consumed := Suc (n_consumed s)\<rparr>) = Inr s'"
      by (subst (asm) drain.simps) (auto split: sum.splits)
    from True w have "P (s\<lparr>batch_tokens := batch_tokens s @ [prompt_tokens s ! n_consumed s],
                   last_n_tokens := w, n_consumed := Suc (n_consumed s)\<rparr>)"
      using step [OF "1.prems"(2)] by simp
    with "1.IH" True w d show ?thesis by simp
  next
    case False
    with "1.prems"(1) have "s' = s" by (subst (asm) drain.simps) auto
    with "1.prems"(2) show ?thesis by simp
  qed
qed

lemma drain_frame:
  assumes "drain s = Inr s'"
  shows "params s' = params s \<and> inp_pfx s' = inp_pfx s \<and> inp_sfx s' = inp_sfx s
       \<and> inp_stop s' = inp_stop s \<and> prompt_tokens s' = prompt_tokens s
       \<and> is_antiprompt s' = is_antiprompt s \<and> canceled s' = canceled s
       \<and> n_past s' = n_past s \<and> n_remain s' = n_remain s \<and> grammar s' = grammar s
       \<and> parsed_grammar s' = parsed_grammar s \<and> ctx_evals s' = ctx_evals s
       \<and> ctx_samples s' = ctx_samples s \<and> grammars_made s' = grammars_made s
       \<and> grammars_freed s' = grammars_freed s
       \<and> length (last_n_tokens s') = length (last_n_tokens s)"
  by (rule drain_invariant [OF assms]) (auto dest: push_history_length)

lemma evict_frame:
  assumes "evict B s = Inr s'"
  shows "params s' = params s \<and> inp_pfx s' = inp_pfx s \<and> inp_sfx s' = inp_sfx s
       \<and> inp_stop s' = inp_stop s \<and> prompt_tokens s' = prompt_tokens s
       \<and> is_antiprompt s' = is_antiprompt s \<and> canceled s' = canceled s
       \<and> n_remain s' = n_remain s \<and> grammar s' = grammar s
       \<and> parsed_grammar s' = parsed_grammar s \<and> ctx_evals s' = ctx_evals s
       \<and> ctx_samples s' = ctx_samples s \<and> grammars_made s' = grammars_made s
       \<and> grammars_freed s' = grammars_freed s \<and> n_consumed s' = n_consumed s
       \<and> last_n_tokens s' = last_n_tokens s"
  using assms by (auto simp: evict_def Let_def split: if_splits)

lemma eval_frame:
  assumes "eval B s = Inr s'"
  shows "params s' = params s \<and> inp_pfx s' = inp_pfx s \<and> inp_sfx s' = inp_sfx s
       \<and> inp_stop s' = inp_stop s \<and> prompt_tokens s' = prompt_tokens s
       \<and> is_antiprompt s' = is_antiprompt s \<and> canceled s' = canceled s
       \<and> n_remain s' = n_remain s \<and> grammar s' = grammar s
       \<and> parsed_grammar s' = parsed_grammar s
       \<and> ctx_samples s' = ctx_samples s \<and> grammars_made s' = grammars_made s
       \<and> grammars_freed s' = grammars_freed s
       \<and> length (last_n_tokens s') = length (last_n_tokens s)
       \<and> batch_tokens s' = []"
proof -
  from assms obtain s1 where d: "drain s = Inr s1"
    by (auto simp: eval_def split: sum.splits)
  note f1 = drain_frame [OF d]
  show ?thesis
  proof (cases "length (batch_tokens s1) > 0")
    case False
    with assms d have "s' = s1" by (simp add: eval_def)
    with f1 False show ?thesis by simp
  next
    case True
    with assms d obtain s2 where e: "evict B s1 = Inr s2"
      by (auto simp: eval_def split: sum.splits)
    note f2 = evict_frame [OF e]
    from assms d True e obtain np evs where
      "s' = s2\<lparr>n_past := np, ctx_evals := evs, batch_tokens := []\<rparr>"
      by (auto simp: eval_def Let_def split: if_splits prod.splits)
    with f1 f2 show ?thesis by simp
  qed
qed

subsection \<open>One iteration\<close>

lemma sample_eq:
  "sample B s = (nth_output B (params s) (ctx_samples s), s\<lparr>ctx_samples := Suc (ctx_samples s)\<rparr>)"
  by (simp add: sample_def nth_output_def Let_def split: prod.splits)

lemma token_nth_output: "token (nth_output B p k) = fst (llama_sample_token B k)"
  by (simp add: nth_output_def Let_def split: prod.splits)

lemma same_config_refl: "same_config s s"
  by (simp add: same_config_def)

lemma same_config_trans: "same_config s t \<Longrightarrow> same_config t u \<Longrightarrow> same_config s u"
  by (simp add: same_config_def)

lemma eval_same_config: "eval B s = Inr s' \<Longrightarrow> same_config s s'"
  by (drule eval_frame) (simp add: same_config_def)

lemma stop_scan_eq:
  "length cs \<le> length ts \<Longrightarrow> stop_scan cs ts = Inr (map token cs = take (length cs) ts)"
  by (induction cs ts rule: stop_scan.induct) auto

lemma check_stop_eq:
  assumes "antiprompt (params s) = ap # rest"
  shows "check_stop s l =
     Inr (if length (completion_result_list l) \<le> length (inp_stop s) \<and> ap \<noteq> []
             \<and> map token (completion_result_list l)
                 = take (length (completion_result_list l)) (inp_stop s)
          then (if length (completion_result_list l) = length (inp_stop s)
                then Break else Continue, l\<lparr>stopping := True\<rparr>)
          else (Continue, l\<lparr>stopping := False\<rparr>))"
  using assms by (simp add: check_stop_def at0_def stop_scan_eq)

lemma check_stop_frame:
  assumes "check_stop s l = Inr (fl, l')"
  shows "response l' = response l \<and> completion_result_list l' = completion_result_list l
       \<and> delivered l' = delivered l \<and> input_noecho l' = input_noecho l"
  using assms by (auto simp: check_stop_def split: if_splits sum.splits)

lemma sampling_branch_cases:
  assumes "sampling_branch B s l = Inr (fl, s', l')"
  shows "(fl = Break \<and> l' = l \<and> s' = s\<lparr>is_antiprompt := True\<rparr>)
       \<or> (fl = Continue \<and> n_consumed s < length (prompt_tokens s) \<and> s' = s \<and> l' = l)
       \<or> (fl = Continue
          \<and> (\<exists>w. push_history (last_n_tokens s)
                     (token (nth_output B (params s) (ctx_samples s))) = Inr w
                \<and> s' = s\<lparr>is_antiprompt := False, ctx_samples := Suc (ctx_samples s),
                         batch_tokens := batch_tokens s
                            @ [token (nth_output B (params s) (ctx_samples s))],
                         last_n_tokens := w, n_remain := n_remain s - 1\<rparr>)
          \<and> l' = l\<lparr>completion_result_list :=
                     completion_result_list l @ [nth_output B (params s) (ctx_samples s)],
                   input_noecho := False\<rparr>)"
  using assms
  by (auto simp: sampling_branch_def Let_def sample_eq split: if_splits sum.splits)

lemma after_sampling_frame:
  assumes "after_sampling B cb k s l = Inr (fl, s', l')"
  shows "same_config s s' \<and> ctx_samples s' = ctx_samples s
       \<and> last_n_tokens s' = last_n_tokens s \<and> is_antiprompt s' = is_antiprompt s
       \<and> batch_tokens s \<noteq> []"
  using assms
  by (auto simp: after_sampling_def Let_def same_config_def
           split: if_splits sum.splits flow.splits prod.splits)

lemma after_sampling_budget:
  assumes "after_sampling B cb k s l = Inr (fl, s', l')"
  shows "(fl = Continue \<longrightarrow> n_remain s' = n_remain s
            \<and> \<not> (n_remain s \<le> 0 \<and> n_predict (params s) \<noteq> - 1))
       \<and> (n_remain s' = n_remain s \<or> n_remain s' = n_predict (params s))"
  using assms
  by (auto simp: after_sampling_def Let_def
           split: if_splits sum.splits flow.splits prod.splits)

lemma send_text_locals:
  "\<exists>new. response (send_text cb l) = response l @ new
        \<and> delivered (send_text cb l) = delivered l @ (if cb then new else [])
        \<and> new @ completion_result_list (send_text cb l) = completion_result_list l"
  by (simp add: send_text_def)

lemma after_sampling_locals:
  assumes "after_sampling B cb k s l = Inr (fl, s', l')"
  shows "\<exists>new. response l' = response l @ new
        \<and> delivered l' = delivered l @ (if cb then new else [])
        \<and> new @ completion_result_list l' = completion_result_list l"
proof -
  have triv: "\<exists>new. response l = response l @ new
        \<and> delivered l = delivered l @ (if cb then new else [])
        \<and> new @ completion_result_list l = completion_result_list l"
    by (rule exI [of _ "[]"]) simp
  show ?thesis
  proof (cases "\<exists>s3 l3. check_stop s3 l = Inr (Continue, l3) \<and> l' = send_text cb l3")
    case True
    then obtain s3 l3 where c: "check_stop s3 l = Inr (Continue, l3)" and l': "l' = send_text cb l3"
      by blast
    from check_stop_frame [OF c] send_text_locals [of cb l3] l' show ?thesis by simp
  next
    case False
    with assms have "response l' = response l \<and> delivered l' = delivered l
        \<and> completion_result_list l' = completion_result_list l"
      by (auto simp: after_sampling_def Let_def dest: check_stop_frame
               split: if_splits sum.splits flow.splits prod.splits)
    with triv show ?thesis by simp
  qed
qed

lemma loop_body_cases:
  assumes "loop_body B cb k s l = Inr (fl, s', l')"
  shows "(fl = Break \<and> l' = l \<and> ctx_samples s' = ctx_samples s \<and> n_remain s' = n_remain s
            \<and> is_antiprompt s' \<and> same_config s s')
       \<or> (\<exists>s2. same_config s s2 \<and> ctx_samples s2 = Suc (ctx_samples s)
              \<and> n_remain s2 = n_remain s - 1 \<and> canceled s2 = canceled s
              \<and> last (batch_tokens s2) = token (nth_output B (params s) (ctx_samples s))
              \<and> batch_tokens s2 \<noteq> []
              \<and> after_sampling B cb k s2
                   (l\<lparr>completion_result_list :=
                        completion_result_list l @ [nth_output B (params s) (ctx_samples s)],
                      input_noecho := False\<rparr>) = Inr (fl, s', l'))"
proof -
  from assms obtain s1 where e: "eval B s = Inr s1"
    by (auto simp: loop_body_def split: sum.splits)
  note f = eval_frame [OF e]
  from assms e obtain fl2 s2 l2 where
    sb: "sampling_branch B s1 l = Inr (fl2, s2, l2)"
    by (auto simp: loop_body_def split: sum.splits)
  from sampling_branch_cases [OF sb] show ?thesis
  proof (elim disjE conjE exE)
    assume b: "fl2 = Break" "l2 = l" "s2 = s1\<lparr>is_antiprompt := True\<rparr>"
    with assms e sb have "fl = Break" "l' = l" "s' = s1\<lparr>is_antiprompt := True\<rparr>"
      by (auto simp: loop_body_def)
    with f show ?thesis
      by (simp add: same_config_def)
  next
    assume "fl2 = Continue" "s2 = s1" "l2 = l"
    with assms e sb f show ?thesis
      by (simp add: loop_body_def after_sampling_def)
  next
    fix w
    assume c: "fl2 = Continue"
      and w: "push_history (last_n_tokens s1)
                (token (nth_output B (params s1) (ctx_samples s1))) = Inr w"
      and s2: "s2 = s1\<lparr>is_antiprompt := False, ctx_samples := Suc (ctx_samples s1),
                       batch_tokens := batch_tokens s1
                          @ [token (nth_output B (params s1) (ctx_samples s1))],
                       last_n_tokens := w, n_remain := n_remain s1 - 1\<rparr>"
      and l2: "l2 = l\<lparr>completion_result_list :=
                     completion_result_list l @ [nth_output B (params s1) (ctx_samples s1)],
                   input_noecho := False\<rparr>"
    from assms e sb c have a: "after_sampling B cb k s2 l2 = Inr (fl, s', l')"
      by (simp add: loop_body_def)
    from f s2 push_history_length [OF w] have "same_config s s2 \<and> ctx_samples s2 = Suc (ctx_samples s)
              \<and> n_remain s2 = n_remain s - 1 \<and> canceled s2 = canceled s
              \<and> last (batch_tokens s2) = token (nth_output B (params s) (ctx_samples s))
              \<and> batch_tokens s2 \<noteq> []"
      by (simp add: same_config_def)
    moreover from a l2 f have "after_sampling B cb k s2
                   (l\<lparr>completion_result_list :=
                        completion_result_list l @ [nth_output B (params s) (ctx_samples s)],
                      input_noecho := False\<rparr>) = Inr (fl, s', l')"
      by simp
    ultimately show ?thesis by blast
  qed
qed

subsection \<open>The loop\<close>

lemma gen_loop_rule:
  assumes "gen_loop fuel B cb k s l = Finished (s', l')
           \<or> gen_loop fuel B cb k s l = Unfinished (s', l')"
    and "I s l"
    and cont: "\<And>k s l s1 l1. I s l \<Longrightarrow> n_remain s \<noteq> 0 \<Longrightarrow>
                 loop_body B cb k s l = Inr (Continue, s1, l1) \<Longrightarrow> I s1 l1"
    and brk: "\<And>k s l s1 l1. I s l \<Longrightarrow> n_remain s \<noteq> 0 \<Longrightarrow>
                 loop_body B cb k s l = Inr (Break, s1, l1) \<Longrightarrow> Q s1 l1"
    and stop: "\<And>s l. I s l \<Longrightarrow> Q s l"
  shows "Q s' l'"
  using assms(1,2)
proof (induction fuel arbitrary: k s l)
  case 0
  then have "s' = s \<and> l' = l" by (auto split: if_splits)
  with "0.prems"(2) stop show ?case by simp
next
  case (Suc fuel)
  show ?case
  proof (cases "n_remain s = 0")
    case True
    with Suc.prems(1) have "s' = s \<and> l' = l" by simp
    with Suc.prems(2) stop show ?thesis by simp
  next
    case False
    with Suc.prems(1) obtain fl s1 l1 where b: "loop_body B cb k s l = Inr (fl, s1, l1)"
      by (cases "loop_body B cb k s l") (auto split: prod.splits)
    show ?thesis
    proof (cases fl)
      case Break
      with b False Suc.prems(1) have "s' = s1 \<and> l' = l1" by simp
      with brk [OF Suc.prems(2) False] b Break show ?thesis by simp
    next
      case Continue
      with b False Suc.prems(1) have
        "gen_loop fuel B cb (Suc k) s1 l1 = Finished (s', l')
         \<or> gen_loop fuel B cb (Suc k) s1 l1 = Unfinished (s', l')" by simp
      moreover from cont [OF Suc.prems(2) False] b Continue have "I s1 l1" by simp
      ultimately show ?thesis by (rule Suc.IH)
    qed
  qed
qed

lemma loop_body_same_config:
  "loop_body B cb k s l = Inr (fl, s', l') \<Longrightarrow> same_config s s'"
  by (drule loop_body_cases) (auto dest: after_sampling_frame same_config_trans)

lemma gen_loop_same_config:
  assumes "gen_loop fuel B cb k s l = Finished (s', l')
           \<or> gen_loop fuel B cb k s l = Unfinished (s', l')"
  shows "same_config s s'"
  by (rule gen_loop_rule [OF assms, where I = "\<lambda>x l. same_config s x"])
     (auto intro: same_config_refl dest: loop_body_same_config same_config_trans)

lemma loop_body_outputs:
  assumes "loop_body B cb k s l = Inr (fl, s', l')"
  shows "ctx_samples s \<le> ctx_samples s' \<and> ctx_samples s' \<le> Suc (ctx_samples s)
       \<and> (\<exists>new. response l' = response l @ new
             \<and> delivered l' = delivered l @ (if cb then new else [])
             \<and> new @ completion_result_list l'
                 = completion_result_list l
                     @ map (nth_output B (params s)) [ctx_samples s ..< ctx_samples s'])"
  using loop_body_cases [OF assms]
proof (elim disjE conjE exE)
  assume "l' = l" "ctx_samples s' = ctx_samples s"
  then show ?thesis by simp
next
  fix s2
  assume c: "ctx_samples s2 = Suc (ctx_samples s)"
    and a: "after_sampling B cb k s2
              (l\<lparr>completion_result_list :=
                   completion_result_list l @ [nth_output B (params s) (ctx_samples s)],
                 input_noecho := False\<rparr>) = Inr (fl, s', l')"
  from after_sampling_frame [OF a] c have "ctx_samples s' = Suc (ctx_samples s)" by simp
  with after_sampling_locals [OF a] show ?thesis by auto
qed

lemma gen_loop_outputs:
  assumes "gen_loop fuel B cb k s l = Finished (s', l')
           \<or> gen_loop fuel B cb k s l = Unfinished (s', l')"
  shows "ctx_samples s \<le> ctx_samples s'
       \<and> (\<exists>new. response l' = response l @ new
             \<and> delivered l' = delivered l @ (if cb then new else [])
             \<and> new @ completion_result_list l'
                 = completion_result_list l
                     @ map (nth_output B (params s)) [ctx_samples s ..< ctx_samples s'])"
proof -
  let ?R = "\<lambda>x m. ctx_samples s \<le> ctx_samples x
       \<and> (\<exists>new. response m = response l @ new
             \<and> delivered m = delivered l @ (if cb then new else [])
             \<and> new @ completion_result_list m
                 = completion_result_list l
                     @ map (nth_output B (params s)) [ctx_samples s ..< ctx_samples x])"
  let ?I = "\<lambda>x m. same_config s x \<and> ?R x m"
  have step: "?I s1 l1"
    if I: "?I x m" and b: "loop_body B cb k x m = Inr (fl, s1, l1)" for k x m fl s1 l1
  proof -
    from I obtain new where n: "response m = response l @ new"
      "delivered m = delivered l @ (if cb then new else [])"
      "new @ completion_result_list m
         = completion_result_list l
             @ map (nth_output B (params s)) [ctx_samples s ..< ctx_samples x]" by blast
    from loop_body_outputs [OF b] obtain new' where n': "response l1 = response m @ new'"
      "delivered l1 = delivered m @ (if cb then new' else [])"
      "new' @ completion_result_list l1
         = completion_result_list m
             @ map (nth_output B (params x)) [ctx_samples x ..< ctx_samples s1]"
      and le: "ctx_samples x \<le> ctx_samples s1" by blast
    from I have p: "params x = params s" by (simp add: same_config_def)
    from I le have split: "[ctx_samples s ..< ctx_samples s1]
        = [ctx_samples s ..< ctx_samples x] @ [ctx_samples x ..< ctx_samples s1]"
      by (metis le_Suc_ex upt_add_eq_append)
    have "(new @ new') @ completion_result_list l1
         = completion_result_list l
             @ map (nth_output B (params s)) [ctx_samples s ..< ctx_samples s1]"
      using n(3) n'(3) p split by (metis append.assoc map_append)
    moreover have "response l1 = response l @ (new @ new')" using n n' by simp
    moreover have "delivered l1 = delivered l @ (if cb then new @ new' else [])"
      using n n' by simp
    moreover have "same_config s s1"
      using I loop_body_same_config [OF b] by (blast intro: same_config_trans)
    moreover have "ctx_samples s \<le> ctx_samples s1" using I le by simp
    ultimately show ?thesis by blast
  qed
  have "?R s' l'"
  proof (rule gen_loop_rule [OF assms, where I = "?I" and Q = "?R"])
    show "?I s l" by (simp add: same_config_refl)
  next
    fix k x m s1 l1
    assume "?I x m" and "loop_body B cb k x m = Inr (Continue, s1, l1)"
    then show "?I s1 l1" by (rule step)
  next
    fix k x m s1 l1
    assume "?I x m" and "loop_body B cb k x m = Inr (Break, s1, l1)"
    then have "?I s1 l1" by (rule step)
    then show "?R s1 l1" by simp
  next
    fix x m
    assume "?I x m"
    then show "?R x m" by simp
  qed
  then show ?thesis .
qed

subsection \<open>Before the loop\<close>

lemma insert_prompt_tokens:
  "prompt_tokens (insert_prompt s line_inp add_pfx_sfx) =
     prompt_tokens s
       @ (if add_pfx_sfx \<and> input_prefix (params s) \<noteq> [] \<and> \<not> is_antiprompt s
          then inp_pfx s else [])
       @ line_inp
       @ (if add_pfx_sfx \<and> input_suffix (params s) \<noteq> [] then inp_sfx s else [])"
  by (auto simp: insert_prompt_def Let_def)

lemma insert_prompt_frame:
  "insert_prompt s line_inp add_pfx_sfx
     = s\<lparr>prompt_tokens := prompt_tokens (insert_prompt s line_inp add_pfx_sfx)\<rparr>"
  by (simp add: insert_prompt_def Let_def)

lemma load_grammar_cases:
  assumes "load_grammar B s txt = Inr (g, s')"
  shows "s' = s\<lparr>parsed_grammar := parsed_grammar s', grammars_made := grammars_made s'\<rparr>
           \<and> ((g = None \<and> grammars_made s' = grammars_made s)
               \<or> (g = Some (grammars_made s) \<and> grammars_made s' = Suc (grammars_made s)))"
  using assms
  by (auto simp: load_grammar_def Let_def split: if_splits option.splits)

lemma prime_cases:
  assumes "prime B s input_prompt add_pfx_sfx = Inr sp"
  shows "params sp = params s \<and> inp_pfx sp = inp_pfx s \<and> inp_sfx sp = inp_sfx s
       \<and> inp_stop sp = inp_stop s \<and> last_n_tokens sp = last_n_tokens s
       \<and> batch_tokens sp = batch_tokens s \<and> is_antiprompt sp = is_antiprompt s
       \<and> canceled sp = canceled s \<and> n_past sp = n_past s \<and> n_consumed sp = n_consumed s
       \<and> ctx_evals sp = ctx_evals s \<and> ctx_samples sp = ctx_samples s
       \<and> grammars_freed sp = grammars_freed s
       \<and> prompt_tokens sp
           = prompt_tokens (insert_prompt s
               (tokenize_input B s input_prompt add_pfx_sfx) add_pfx_sfx)
       \<and> n_remain sp
           = int_minus_size_t (n_remain s)
               (length (tokenize_input B s input_prompt add_pfx_sfx))
       \<and> ((grammar sp = None \<and> grammars_made sp = grammars_made s)
           \<or> (grammar sp = Some (grammars_made s)
               \<and> grammars_made sp = Suc (grammars_made s)))"
proof -
  let ?line = "tokenize_input B s input_prompt add_pfx_sfx"
  let ?s1 = "insert_prompt s ?line add_pfx_sfx"
  let ?s2 = "?s1\<lparr>n_remain := int_minus_size_t (n_remain ?s1) (length ?line)\<rparr>"
  from assms obtain g s3 where lg: "load_grammar B ?s2 (grammar_text (params ?s2)) = Inr (g, s3)"
    and sp: "sp = s3\<lparr>grammar := g\<rparr>"
    by (auto simp: prime_def Let_def split: sum.splits)
  note c = load_grammar_cases [OF lg]
  have f: "?s1 = s\<lparr>prompt_tokens := prompt_tokens ?s1\<rparr>" by (rule insert_prompt_frame)
  have s2: "?s2 = s\<lparr>prompt_tokens := prompt_tokens ?s1,
                     n_remain := int_minus_size_t (n_remain s) (length ?line)\<rparr>"
    by (subst (1 2) f) simp
  from c obtain pg n where "s3 = ?s2\<lparr>parsed_grammar := pg, grammars_made := n\<rparr>"
    by blast
  then have eq: "sp = s\<lparr>prompt_tokens := prompt_tokens ?s1,
                     n_remain := int_minus_size_t (n_remain s) (length ?line),
                     parsed_grammar := pg, grammars_made := n, grammar := g\<rparr>"
    by (simp add: s2 sp)
  have gm: "grammars_made ?s2 = grammars_made s" by (subst f) simp
  from c sp gm have "(grammar sp = None \<and> grammars_made sp = grammars_made s)
           \<or> (grammar sp = Some (grammars_made s)
               \<and> grammars_made sp = Suc (grammars_made s))"
    by auto
  then show ?thesis by (simp add: eq)
qed

subsection \<open>The whole call\<close>

lemma Llama_demo:
  "antiprompt p \<noteq> [] \<Longrightarrow> Llama (demo_backend sampled cancel_at) p = Inr (demo_session p)"
  by (cases "antiprompt p")
     (auto simp: Llama_def demo_session_def demo_backend_def at0_def tokenize_def
                get_n_ctx_def numeral_eq_Suc)

lemma generate_response_Finished:
  assumes "generate_response fuel B s input_prompt add_pfx_sfx cb = Finished (s', l)"
    and "input_prompt \<noteq> []"
  obtains sp s4 where "prime B (s\<lparr>canceled := False\<rparr>) input_prompt add_pfx_sfx = Inr sp"
    and "gen_loop fuel B cb 0 sp initial_locals = Finished (s4, l)"
    and "s' = free_grammar s4"
  using assms
  by (auto simp: generate_response_def Let_def split: sum.splits outcome.splits)

lemma generate_response_Unfinished:
  assumes "generate_response fuel B s input_prompt add_pfx_sfx cb = Unfinished (s', l)"
  obtains sp where "input_prompt \<noteq> []"
    and "prime B (s\<lparr>canceled := False\<rparr>) input_prompt add_pfx_sfx = Inr sp"
    and "gen_loop fuel B cb 0 sp initial_locals = Unfinished (s', l)"
  using assms
  by (auto simp: generate_response_def Let_def split: sum.splits outcome.splits if_splits)

lemma returned_tokens_Some:
  assumes "returned_tokens out = Some ts"
  obtains s l where "out = Finished (s, l)" and "map token (response l) = ts"
  using assms by (auto simp: returned_tokens_def split: outcome.splits)

lemma free_grammar_frame:
  "free_grammar s = s\<lparr>grammar := None, grammars_freed := grammars_freed (free_grammar s)\<rparr>"
  by (simp add: free_grammar_def split: option.splits)

lemma tokenize_input_canceled [simp]:
  "tokenize_input B (s\<lparr>canceled := c\<rparr>) input_prompt add_pfx_sfx
     = tokenize_input B s input_prompt add_pfx_sfx"
  by (simp add: tokenize_input_def)

section \<open>The embeddings gate\<close>

text \<open>
  Claim C10. On a session that was not configured for embeddings,
  \<^verbatim>\<open>generate_embeddings\<close> returns the empty vector for every input text and
  leaves the session as it was: in particular the list of \<^verbatim>\<open>llama_eval\<close> calls
  is unchanged, so the backend has evaluated nothing.
\<close>

theorem generate_embeddings_gate:
  "\<not> embedding (params s) \<Longrightarrow> generate_embeddings B s input_prompt = Inr ([], s)"
  by (simp add: generate_embeddings_def)

text \<open>The demo session is not in embedding mode.\<close>

theorem generate_embeddings_gate_witness:
  "\<not> embedding (params (demo_session demo_params))
   \<and> generate_embeddings (demo_backend [] None) (demo_session demo_params) ''ab''
       = Inr ([], demo_session demo_params)"
proof -
  have h: "\<not> embedding (params (demo_session demo_params))"
    by (simp add: demo_session_def demo_params_def)
  show ?thesis using h generate_embeddings_gate [OF h] by simp
qed

section \<open>Framing the input\<close>

text \<open>
  Claim C9, as the code has it. A call of \<^verbatim>\<open>generate_response\<close> with a non-empty
  input that returns has appended to \<^verbatim>\<open>prompt_tokens\<close>: the prefix tokens when
  framing is requested, a prefix is configured and the session is not continuing an
  antiprompt turn; then the tokenized input; then the suffix tokens when framing is
  requested and a suffix is configured. The suffix depends neither on the prefix
  nor on \<^verbatim>\<open>is_antiprompt\<close>.
\<close>

theorem generate_response_framing:
  assumes "generate_response fuel B s input_prompt add_pfx_sfx callback = Finished (s', l)"
    and "input_prompt \<noteq> []"
  shows "prompt_tokens s' =
           prompt_tokens s
             @ (if add_pfx_sfx \<and> input_prefix (params s) \<noteq> [] \<and> \<not> is_antiprompt s
                then inp_pfx s else [])
             @ tokenize_input B s input_prompt add_pfx_sfx
             @ (if add_pfx_sfx \<and> input_suffix (params s) \<noteq> [] then inp_sfx s else [])"
proof -
  from assms obtain sp s4 where
    p: "prime B (s\<lparr>canceled := False\<rparr>) input_prompt add_pfx_sfx = Inr sp"
    and g: "gen_loop fuel B callback 0 sp initial_locals = Finished (s4, l)"
    and s': "s' = free_grammar s4"
    by (rule generate_response_Finished)
  from gen_loop_same_config [of fuel B callback 0 sp initial_locals s4 l] g
  have "prompt_tokens s4 = prompt_tokens sp" by (simp add: same_config_def)
  moreover have "prompt_tokens s' = prompt_tokens s4"
    unfolding s' by (subst free_grammar_frame) simp
  moreover from prime_cases [OF p] have "prompt_tokens sp =
      prompt_tokens (insert_prompt (s\<lparr>canceled := False\<rparr>)
         (tokenize_input B s input_prompt add_pfx_sfx) add_pfx_sfx)"
    by simp
  ultimately show ?thesis by (simp add: insert_prompt_tokens)
qed

text \<open>A framed call with prefix \<open>a\<close> and suffix \<open>c\<close> on a fresh session: the
  prompt becomes BOS, \<open>a\<close>, the input \<open>b\<close>, \<open>c\<close>.\<close>

theorem generate_response_framing_witness:
  "\<exists>s' l. generate_response 10 (demo_backend [5, 5, 9] None)
             (demo_session (demo_params\<lparr>input_prefix := ''a'', input_suffix := ''c''\<rparr>))
             ''b'' True False = Finished (s', l)
          \<and> ''b'' \<noteq> [] \<and> prompt_tokens s' = [1, 1, 2, 3]"
proof -
  have "returned_tokens (generate_response 10 (demo_backend [5, 5, 9] None)
             (demo_session (demo_params\<lparr>input_prefix := ''a'', input_suffix := ''c''\<rparr>))
             ''b'' True False) = Some [5, 5, 9]"
    by code_simp
  then obtain s' l where run: "generate_response 10 (demo_backend [5, 5, 9] None)
             (demo_session (demo_params\<lparr>input_prefix := ''a'', input_suffix := ''c''\<rparr>))
             ''b'' True False = Finished (s', l)"
    by (rule returned_tokens_Some)
  have ne: "''b'' \<noteq> []" by simp
  have "prompt_tokens (demo_session (demo_params\<lparr>input_prefix := ''a'', input_suffix := ''c''\<rparr>))
          @ (if True \<and> input_prefix (params (demo_session
                  (demo_params\<lparr>input_prefix := ''a'', input_suffix := ''c''\<rparr>))) \<noteq> []
                \<and> \<not> is_antiprompt (demo_session
                  (demo_params\<lparr>input_prefix := ''a'', input_suffix := ''c''\<rparr>))
             then inp_pfx (demo_session (demo_params\<lparr>input_prefix := ''a'', input_suffix := ''c''\<rparr>))
             else [])
          @ tokenize_input (demo_backend [5, 5, 9] None)
              (demo_session (demo_params\<lparr>input_prefix := ''a'', input_suffix := ''c''\<rparr>))
              ''b'' True
          @ (if True \<and> input_suffix (params (demo_session
                  (demo_params\<lparr>input_prefix := ''a'', input_suffix := ''c''\<rparr>))) \<noteq> []
             then inp_sfx (demo_session (demo_params\<lparr>input_prefix := ''a'', input_suffix := ''c''\<rparr>))
             else [])
        = [1, 1, 2, 3]"
    by code_simp
  with generate_response_framing [OF run ne] have "prompt_tokens s' = [1, 1, 2, 3]"
    by simp
  with run ne show ?thesis by blast
qed

text \<open>
  The claim as stated fails. With no prefix configured and the suffix \<open>c\<close>, a
  framed call appends the input \<open>ab\<close> (tokens 1, 2) and the suffix (token 3): not
  the raw input alone. With both configured on a session that continues an
  antiprompt turn, the prefix is left out and the suffix is still appended.
\<close>

theorem generate_response_framing_counterexample:
  "input_prefix (demo_params\<lparr>input_suffix := ''c''\<rparr>) = []
   \<and> map_option prompt_tokens (final_session (generate_response 10 (demo_backend [5, 5, 9] None)
       (demo_session (demo_params\<lparr>input_suffix := ''c''\<rparr>)) ''ab'' True False))
     = Some [1, 2, 3]
   \<and> map_option prompt_tokens (final_session (generate_response 10 (demo_backend [5, 5, 9] None)
       ((demo_session (demo_params\<lparr>input_prefix := ''a'', input_suffix := ''c''\<rparr>))
          \<lparr>is_antiprompt := True\<rparr>) ''ab'' True False))
     = Some [1, 2, 3]"
  by code_simp

section \<open>Cancellation\<close>

lemma after_sampling_canceled:
  assumes "cancel_requested B k" and "after_sampling B cb k s l = Inr (fl, s', l')"
  shows "fl = Break \<and> l' = l"
  using assms by (auto simp: after_sampling_def Let_def split: if_splits)

lemma loop_body_canceled:
  assumes "cancel_requested B k" and "loop_body B cb k s l = Inr (fl, s', l')"
  shows "fl = Break \<and> response l' = response l \<and> delivered l' = delivered l"
  using loop_body_cases [OF assms(2)] after_sampling_canceled [OF assms(1)]
  by fastforce

lemma gen_loop_first_cancel:
  assumes "cancel_requested B 0"
  shows "case gen_loop (Suc fuel) B cb 0 s l of
           Finished (s', l') \<Rightarrow> response l' = response l \<and> delivered l' = delivered l
                                  \<and> ctx_samples s' \<le> Suc (ctx_samples s)
         | Faulted e \<Rightarrow> True
         | Unfinished x \<Rightarrow> False"
proof (cases "n_remain s = 0")
  case True
  then show ?thesis by simp
next
  case False
  show ?thesis
  proof (cases "loop_body B cb 0 s l")
    case (Inl e)
    with False show ?thesis by simp
  next
    case (Inr r)
    then obtain fl s1 l1 where b: "loop_body B cb 0 s l = Inr (fl, s1, l1)"
      by (cases r) auto
    from loop_body_canceled [OF assms b] loop_body_outputs [OF b] False b
    show ?thesis by simp
  qed
qed

text \<open>
  Claim C7, as the code has it. \<^verbatim>\<open>generate_response\<close> clears the flag on entry
  (line 152), so a \<^verbatim>\<open>cancel()\<close> issued before the call changes nothing: the call
  behaves as on the session whose flag was clear. A \<^verbatim>\<open>cancel()\<close> that is visible
  at the check of the first iteration ends the loop there: the call returns (given
  fuel for one iteration, and short of a fault) with an empty response, nothing
  delivered and at most one token sampled.
\<close>

theorem cancel_before_call_is_cleared:
  "generate_response fuel B (cancel s) input_prompt add_pfx_sfx callback
     = generate_response fuel B s input_prompt add_pfx_sfx callback
   \<and> (cancel_requested B 0 \<and> 0 < fuel \<longrightarrow>
        (case generate_response fuel B s input_prompt add_pfx_sfx callback of
           Finished (s', l) \<Rightarrow> response l = [] \<and> delivered l = []
                                  \<and> ctx_samples s' \<le> Suc (ctx_samples s)
         | Faulted e \<Rightarrow> True
         | Unfinished x \<Rightarrow> False))"
proof (intro conjI impI)
  show "generate_response fuel B (cancel s) input_prompt add_pfx_sfx callback
     = generate_response fuel B s input_prompt add_pfx_sfx callback"
    by (simp add: generate_response_def cancel_def)
next
  assume a: "cancel_requested B 0 \<and> 0 < fuel"
  then obtain f where fuel: "fuel = Suc f" by (cases fuel) auto
  show "case generate_response fuel B s input_prompt add_pfx_sfx callback of
           Finished (s', l) \<Rightarrow> response l = [] \<and> delivered l = []
                                  \<and> ctx_samples s' \<le> Suc (ctx_samples s)
         | Faulted e \<Rightarrow> True
         | Unfinished x \<Rightarrow> False"
  proof (cases "input_prompt = []")
    case True
    then show ?thesis by (simp add: generate_response_def initial_locals_def)
  next
    case False
    show ?thesis
    proof (cases "prime B (s\<lparr>canceled := False\<rparr>) input_prompt add_pfx_sfx")
      case (Inl e)
      with False show ?thesis by (simp add: generate_response_def)
    next
      case (Inr sp)
      from prime_cases [OF Inr] have c: "ctx_samples sp = ctx_samples s" by simp
      from a have "cancel_requested B 0" by simp
      note G = gen_loop_first_cancel [OF this, where fuel = f and cb = callback and s = sp
          and l = initial_locals]
      have gr: "generate_response fuel B s input_prompt add_pfx_sfx callback
          = (case gen_loop (Suc f) B callback 0 sp initial_locals of
               Finished (s4, l) \<Rightarrow> Finished (free_grammar s4, l)
             | Faulted e \<Rightarrow> Faulted e
             | Unfinished x \<Rightarrow> Unfinished x)"
        using False Inr fuel by (simp add: generate_response_def del: gen_loop.simps)
      show ?thesis
      proof (cases "gen_loop (Suc f) B callback 0 sp initial_locals")
        case (Finished x)
        obtain s4 l where x: "x = (s4, l)" by (cases x)
        from G Finished x c have "response l = [] \<and> delivered l = []
            \<and> ctx_samples s4 \<le> Suc (ctx_samples s)"
          by (simp add: initial_locals_def del: gen_loop.simps)
        moreover have "ctx_samples (free_grammar s4) = ctx_samples s4"
          by (subst free_grammar_frame) simp
        ultimately show ?thesis
          unfolding gr Finished x by simp
      next
        case (Faulted e)
        then show ?thesis unfolding gr by simp
      next
        case (Unfinished x)
        with G show ?thesis by (simp del: gen_loop.simps)
      qed
    qed
  qed
qed

text \<open>A cancel visible from the first iteration: the response is empty.\<close>

theorem cancel_before_call_is_cleared_witness:
  "generate_response 10 (demo_backend [5, 5, 9] (Some 0)) (cancel (demo_session demo_params))
       ''ab'' False True
     = generate_response 10 (demo_backend [5, 5, 9] (Some 0)) (demo_session demo_params)
       ''ab'' False True
   \<and> cancel_requested (demo_backend [5, 5, 9] (Some 0)) 0 \<and> (0 :: nat) < 10
   \<and> returned_tokens (generate_response 10 (demo_backend [5, 5, 9] (Some 0))
        (demo_session demo_params) ''ab'' False True) = Some []"
proof -
  have h: "cancel_requested (demo_backend [5, 5, 9] (Some 0)) 0 \<and> (0 :: nat) < 10"
    by (simp add: demo_backend_def)
  have r: "returned_tokens (generate_response 10 (demo_backend [5, 5, 9] (Some 0))
        (demo_session demo_params) ''ab'' False True) = Some []"
    by code_simp
  from cancel_before_call_is_cleared
         [of 10 "demo_backend [5, 5, 9] (Some 0)" "demo_session demo_params" "''ab''" False True]
    h r
  show ?thesis by blast
qed

text \<open>The claim as stated fails: the flag is set before the call, nobody cancels
  during it, and the call returns three tokens.\<close>

theorem cancel_before_call_counterexample:
  "canceled (cancel (demo_session demo_params))
   \<and> returned_tokens (generate_response 10 (demo_backend [5, 5, 9] None)
        (cancel (demo_session demo_params)) ''ab'' False True) = Some [5, 5, 9]"
  by code_simp

section \<open>The last element of the batch\<close>

text \<open>\<^verbatim>\<open>eval\<close> leaves the batch empty. When prompt tokens are still waiting
  after it, nothing is sampled, and line 261 reads \<^verbatim>\<open>batch_tokens.back()\<close> of an
  empty vector.\<close>

lemma loop_body_unconsumed:
  assumes "eval B s = Inr s1" and "n_consumed s1 < length (prompt_tokens s1)"
  shows "loop_body B cb k s l = Inl Back_Of_Empty_Batch"
  using assms eval_frame [OF assms(1)]
  by (simp add: loop_body_def sampling_branch_def after_sampling_def)

text \<open>
  Claim C6 does not hold of the code. With \<^verbatim>\<open>n_batch = 4\<close> and the input
  \<open>abcd\<close> (five tokens with the BOS), the first iteration evaluates four tokens,
  samples nothing, and reads the last element of the empty batch.
\<close>

theorem back_of_empty_batch:
  "generate_response 10 (demo_backend [1, 1, 1] None) (demo_session demo_params)
       ''abcd'' False True = Faulted Back_Of_Empty_Batch"
  by code_simp

section \<open>The budget and the frame of a call\<close>

lemma loop_body_step:
  assumes "loop_body B cb k s l = Inr (fl, s', l')"
  shows "same_config s s' \<and> ctx_samples s \<le> ctx_samples s'
       \<and> ctx_samples s' \<le> Suc (ctx_samples s)
       \<and> (fl = Continue \<longrightarrow> ctx_samples s' = Suc (ctx_samples s)
              \<and> n_remain s' = n_remain s - 1
              \<and> \<not> (n_remain s' \<le> 0 \<and> n_predict (params s) \<noteq> - 1))
       \<and> (n_remain s' \<le> n_remain s \<or> n_remain s' = n_predict (params s))"
  using loop_body_cases [OF assms]
proof (elim disjE conjE exE)
  assume "fl = Break" "ctx_samples s' = ctx_samples s" "n_remain s' = n_remain s"
    "same_config s s'"
  then show ?thesis by simp
next
  fix s2
  assume c: "same_config s s2" "ctx_samples s2 = Suc (ctx_samples s)"
    "n_remain s2 = n_remain s - 1"
    and a: "after_sampling B cb k s2
              (l\<lparr>completion_result_list :=
                   completion_result_list l @ [nth_output B (params s) (ctx_samples s)],
                 input_noecho := False\<rparr>) = Inr (fl, s', l')"
  from c have p: "params s2 = params s" by (simp add: same_config_def)
  from after_sampling_frame [OF a] c(1) have "same_config s s'"
    by (blast intro: same_config_trans)
  with after_sampling_frame [OF a] after_sampling_budget [OF a] c p show ?thesis
    by auto
qed

lemma gen_loop_budget:
  assumes run: "gen_loop fuel B cb k s l = Finished (s', l')
           \<or> gen_loop fuel B cb k s l = Unfinished (s', l')"
    and fin: "n_predict (params s) \<noteq> - 1"
  shows "int (ctx_samples s') \<le> int (ctx_samples s) + max 1 (n_remain s)"
proof -
  let ?I = "\<lambda>x (m :: 'a gen_locals). params x = params s
       \<and> int (ctx_samples x) + n_remain x = int (ctx_samples s) + n_remain s
       \<and> (ctx_samples x = ctx_samples s \<or> 0 < n_remain x)"
  let ?Q = "\<lambda>x (m :: 'a gen_locals).
       int (ctx_samples x) \<le> int (ctx_samples s) + max 1 (n_remain s)"
  show ?thesis
  proof (rule gen_loop_rule [OF run, where I = "?I" and Q = "?Q"])
    show "?I s l" by simp
  next
    fix k x m s1 l1
    assume I: "?I x m" and b: "loop_body B cb k x m = Inr (Continue, s1, l1)"
    from loop_body_step [OF b] I fin show "?I s1 l1"
      by (auto simp: same_config_def)
  next
    fix k x m s1 l1
    assume I: "?I x m" and b: "loop_body B cb k x m = Inr (Break, s1, l1)"
    from loop_body_step [OF b] I show "?Q s1 l1"
      by auto
  next
    fix x m
    assume "?I x m"
    then show "?Q x m" by auto
  qed
qed

lemma gen_loop_terminates:
  assumes "n_predict (params s) \<noteq> - 1" and "nat (max 1 (n_remain s)) \<le> fuel"
  shows "gen_loop fuel B cb k s l \<noteq> Unfinished x"
  using assms
proof (induction fuel arbitrary: k s l)
  case 0
  then show ?case by simp
next
  case (Suc fuel)
  show ?case
  proof (cases "n_remain s = 0")
    case True
    then show ?thesis by simp
  next
    case False
    show ?thesis
    proof (cases "loop_body B cb k s l")
      case (Inl e)
      with False show ?thesis by simp
    next
      case (Inr r)
      then obtain fl s1 l1 where b: "loop_body B cb k s l = Inr (fl, s1, l1)"
        by (cases r) auto
      show ?thesis
      proof (cases fl)
        case Break
        with b False show ?thesis by simp
      next
        case Continue
        from loop_body_step [OF b] Continue Suc.prems(1)
        have r: "n_remain s1 = n_remain s - 1" "0 < n_remain s1"
          and p: "params s1 = params s"
          by (auto simp: same_config_def)
        from r Suc.prems(2) have "nat (max 1 (n_remain s1)) \<le> fuel" by auto
        with Suc.IH [of s1 "Suc k" l1] p Suc.prems(1)
        have "gen_loop fuel B cb (Suc k) s1 l1 \<noteq> Unfinished x" by simp
        with b False Continue show ?thesis by simp
      qed
    qed
  qed
qed

lemma generate_response_frame:
  assumes "generate_response fuel B s input_prompt add_pfx_sfx cb = Finished (s', l)
           \<or> generate_response fuel B s input_prompt add_pfx_sfx cb = Unfinished (s', l)"
  shows "params s' = params s \<and> inp_pfx s' = inp_pfx s \<and> inp_sfx s' = inp_sfx s
       \<and> inp_stop s' = inp_stop s
       \<and> length (last_n_tokens s') = length (last_n_tokens s)"
proof (cases "input_prompt = []")
  case True
  with assms show ?thesis by (auto simp: generate_response_def)
next
  case False
  from assms show ?thesis
  proof
    assume "generate_response fuel B s input_prompt add_pfx_sfx cb = Finished (s', l)"
    from this False obtain sp s4 where
      p: "prime B (s\<lparr>canceled := False\<rparr>) input_prompt add_pfx_sfx = Inr sp"
      and g: "gen_loop fuel B cb 0 sp initial_locals = Finished (s4, l)"
      and s': "s' = free_grammar s4"
      by (rule generate_response_Finished)
    from g have c: "same_config sp s4" by (intro gen_loop_same_config disjI1)
    have "params s' = params s4 \<and> inp_pfx s' = inp_pfx s4 \<and> inp_sfx s' = inp_sfx s4
       \<and> inp_stop s' = inp_stop s4 \<and> last_n_tokens s' = last_n_tokens s4"
      unfolding s' by (subst (1 2 3 4 5) free_grammar_frame) simp
    with prime_cases [OF p] c show ?thesis by (simp add: same_config_def)
  next
    assume "generate_response fuel B s input_prompt add_pfx_sfx cb = Unfinished (s', l)"
    then obtain sp where
      p: "prime B (s\<lparr>canceled := False\<rparr>) input_prompt add_pfx_sfx = Inr sp"
      and g: "gen_loop fuel B cb 0 sp initial_locals = Unfinished (s', l)"
      by (rule generate_response_Unfinished)
    from g have c: "same_config sp s'" by (intro gen_loop_same_config disjI2)
    with prime_cases [OF p] show ?thesis by (simp add: same_config_def)
  qed
qed

section \<open>What every session keeps\<close>

lemma live_grammars_alloc_free:
  assumes "grammars_made s' = Suc (grammars_made s)"
    and "grammars_freed s' = grammars_freed s @ [grammars_made s]"
  shows "live_grammars s' = live_grammars s"
proof -
  have "filter (\<lambda>h. h \<notin> set (grammars_freed s @ [grammars_made s])) [0 ..< grammars_made s]
          = filter (\<lambda>h. h \<notin> set (grammars_freed s)) [0 ..< grammars_made s]"
    by (rule filter_cong) auto
  with assms show ?thesis by (simp add: live_grammars_def)
qed

lemma generate_response_grammar:
  assumes "generate_response fuel B s input_prompt add_pfx_sfx cb = Finished (s', l)"
    and "input_prompt \<noteq> []"
  shows "grammar s' = None
       \<and> ((grammars_made s' = grammars_made s \<and> grammars_freed s' = grammars_freed s)
          \<or> (grammars_made s' = Suc (grammars_made s)
              \<and> grammars_freed s' = grammars_freed s @ [grammars_made s]))"
proof -
  from assms obtain sp s4 where
    p: "prime B (s\<lparr>canceled := False\<rparr>) input_prompt add_pfx_sfx = Inr sp"
    and g: "gen_loop fuel B cb 0 sp initial_locals = Finished (s4, l)"
    and s': "s' = free_grammar s4"
    by (rule generate_response_Finished)
  from g have "same_config sp s4" by (intro gen_loop_same_config disjI1)
  then have c: "grammar s4 = grammar sp" "grammars_made s4 = grammars_made sp"
    "grammars_freed s4 = grammars_freed sp" by (simp_all add: same_config_def)
  from prime_cases [OF p] have f: "grammars_freed sp = grammars_freed s"
    and m: "(grammar sp = None \<and> grammars_made sp = grammars_made s)
           \<or> (grammar sp = Some (grammars_made s)
               \<and> grammars_made sp = Suc (grammars_made s))" by simp_all
  from m show ?thesis
  proof
    assume "grammar sp = None \<and> grammars_made sp = grammars_made s"
    with c f show ?thesis unfolding s' by (simp add: free_grammar_def)
  next
    assume "grammar sp = Some (grammars_made s) \<and> grammars_made sp = Suc (grammars_made s)"
    with c f show ?thesis unfolding s' by (simp add: free_grammar_def)
  qed
qed

lemma do_call_invariant:
  assumes "do_call B s c = Some s'"
    and "length (last_n_tokens s) = llama_n_ctx B
         \<and> grammar s = None \<and> live_grammars s = []"
  shows "length (last_n_tokens s') = llama_n_ctx B
         \<and> grammar s' = None \<and> live_grammars s' = [] \<and> params s' = params s
         \<and> inp_stop s' = inp_stop s"
proof (cases c)
  case Reset
  with assms show ?thesis by (auto simp: reset_def get_n_ctx_def live_grammars_def)
next
  case Cancel
  with assms show ?thesis by (auto simp: cancel_def live_grammars_def)
next
  case (Generate_Response fuel input_prompt add_pfx_sfx cb)
  with assms(1) obtain l where
    run: "generate_response fuel B s input_prompt add_pfx_sfx cb = Finished (s', l)"
    by (auto split: outcome.splits)
  note fr = generate_response_frame [OF disjI1, OF run]
  show ?thesis
  proof (cases "input_prompt = []")
    case True
    with run have "s' = s\<lparr>canceled := False\<rparr>" by (simp add: generate_response_def)
    with assms(2) show ?thesis by (simp add: live_grammars_def)
  next
    case False
    from generate_response_grammar [OF run False] assms(2)
    have "grammar s' = None \<and> live_grammars s' = []"
      by (auto simp: live_grammars_alloc_free) (simp add: live_grammars_def)
    with fr assms(2) show ?thesis by simp
  qed
next
  case (Generate_Embeddings input_prompt)
  with assms(1) obtain v where "generate_embeddings B s input_prompt = Inr (v, s')"
    by (auto split: sum.splits)
  then have "\<exists>evs. s' = s\<lparr>ctx_evals := evs\<rparr>"
    by (auto simp: generate_embeddings_def Let_def split: if_splits prod.splits
             intro: exI [of _ "ctx_evals s"])
  with assms(2) show ?thesis by (auto simp: live_grammars_def)
qed

lemma Llama_invariant:
  assumes "Llama B p = Inr s"
  shows "length (last_n_tokens s) = llama_n_ctx B \<and> n_remain s \<le> n_predict (params s)
         \<and> grammar s = None \<and> live_grammars s = [] \<and> n_predict (params s) = n_predict p
         \<and> last_n_tokens s = replicate (llama_n_ctx B) 0"
  using assms
  by (auto simp: Llama_def get_n_ctx_def live_grammars_def split: sum.splits)

lemma session_invariant:
  assumes "session B s calls = Some s'"
    and "length (last_n_tokens s) = llama_n_ctx B
         \<and> grammar s = None \<and> live_grammars s = []"
  shows "length (last_n_tokens s') = llama_n_ctx B
         \<and> grammar s' = None \<and> live_grammars s' = [] \<and> params s' = params s
         \<and> inp_stop s' = inp_stop s"
  using assms
proof (induction calls arbitrary: s)
  case Nil
  then show ?case by simp
next
  case (Cons c calls)
  from Cons.prems(1) obtain s1 where d: "do_call B s c = Some s1"
    and r: "session B s1 calls = Some s'"
    by (auto split: option.splits)
  note i1 = do_call_invariant [OF d Cons.prems(2)]
  then have "length (last_n_tokens s1) = llama_n_ctx B
         \<and> grammar s1 = None \<and> live_grammars s1 = []" by blast
  from Cons.IH [OF r this] i1 show ?case by auto
qed

section \<open>Sessions made by the constructor\<close>

lemma session_reachable:
  assumes "Llama B p = Inr s0" and "session B s0 calls = Some s"
  shows "length (last_n_tokens s) = llama_n_ctx B
         \<and> n_predict (params s) = n_predict p \<and> grammar s = None \<and> live_grammars s = []"
proof -
  note i0 = Llama_invariant [OF assms(1)]
  then have "length (last_n_tokens s0) = llama_n_ctx B
         \<and> grammar s0 = None \<and> live_grammars s0 = []" by simp
  from session_invariant [OF assms(2) this] i0 show ?thesis by auto
qed

section \<open>The history window\<close>

text \<open>
  Claim C5. The constructor fills \<^verbatim>\<open>last_n_tokens\<close> with as many zeros as the
  context holds, and after any sequence of calls on the session its length is still
  the context capacity. From such a session: \<^verbatim>\<open>reset\<close> refills the window with
  zeros to the same length; a push drops exactly the oldest element and appends the
  new token; \<^verbatim>\<open>eval\<close> keeps the length; and so does \<^verbatim>\<open>generate_response\<close>,
  both when it returns and at every iteration boundary it reaches before that.
\<close>

theorem history_window_invariant:
  assumes "Llama B p = Inr s0" and "session B s0 calls = Some s"
  shows "length (last_n_tokens s) = llama_n_ctx B
       \<and> last_n_tokens s0 = replicate (llama_n_ctx B) 0
       \<and> last_n_tokens (reset B s) = replicate (llama_n_ctx B) 0
       \<and> (\<forall>t w. push_history (last_n_tokens s) t = Inr w \<longrightarrow>
             w = tl (last_n_tokens s) @ [t] \<and> length w = llama_n_ctx B)
       \<and> (\<forall>s'. eval B s = Inr s' \<longrightarrow> length (last_n_tokens s') = llama_n_ctx B)
       \<and> (\<forall>fuel input_prompt add_pfx_sfx callback s' l.
             generate_response fuel B s input_prompt add_pfx_sfx callback = Finished (s', l)
             \<or> generate_response fuel B s input_prompt add_pfx_sfx callback = Unfinished (s', l)
             \<longrightarrow> length (last_n_tokens s') = llama_n_ctx B)"
proof -
  from session_reachable [OF assms] have len: "length (last_n_tokens s) = llama_n_ctx B"
    by simp
  moreover from Llama_invariant [OF assms(1)]
  have "last_n_tokens s0 = replicate (llama_n_ctx B) 0" by simp
  moreover have "last_n_tokens (reset B s) = replicate (llama_n_ctx B) 0"
    by (simp add: reset_def get_n_ctx_def)
  moreover have "\<forall>t w. push_history (last_n_tokens s) t = Inr w \<longrightarrow>
             w = tl (last_n_tokens s) @ [t] \<and> length w = llama_n_ctx B"
    using len by (auto dest: push_history_Inr)
  moreover have "\<forall>s'. eval B s = Inr s' \<longrightarrow> length (last_n_tokens s') = llama_n_ctx B"
    using len by (auto dest: eval_frame)
  moreover have "\<forall>fuel input_prompt add_pfx_sfx callback s' l.
             generate_response fuel B s input_prompt add_pfx_sfx callback = Finished (s', l)
             \<or> generate_response fuel B s input_prompt add_pfx_sfx callback = Unfinished (s', l)
             \<longrightarrow> length (last_n_tokens s') = llama_n_ctx B"
  proof (intro allI impI)
    fix fuel input_prompt add_pfx_sfx callback s' l
    assume "generate_response fuel B s input_prompt add_pfx_sfx callback = Finished (s', l)
             \<or> generate_response fuel B s input_prompt add_pfx_sfx callback = Unfinished (s', l)"
    from generate_response_frame [OF this] len
    show "length (last_n_tokens s') = llama_n_ctx B" by simp
  qed
  ultimately show ?thesis by blast
qed

text \<open>A generation call followed by a cancel on the demo session: the window still
  holds 8 tokens.\<close>

theorem history_window_invariant_witness:
  "\<exists>s. Llama (demo_backend [5, 5, 9] None) demo_params = Inr (demo_session demo_params)
      \<and> session (demo_backend [5, 5, 9] None) (demo_session demo_params)
           [Generate_Response 10 ''ab'' False True, Cancel] = Some s
      \<and> length (last_n_tokens s) = 8"
proof -
  have init: "Llama (demo_backend [5, 5, 9] None) demo_params = Inr (demo_session demo_params)"
    by (rule Llama_demo) (simp add: demo_params_def)
  have "session (demo_backend [5, 5, 9] None) (demo_session demo_params)
           [Generate_Response 10 ''ab'' False True, Cancel] \<noteq> None"
    by code_simp
  then obtain s where run: "session (demo_backend [5, 5, 9] None) (demo_session demo_params)
           [Generate_Response 10 ''ab'' False True, Cancel] = Some s"
    by blast
  from history_window_invariant [OF init run]
  have "length (last_n_tokens s) = 8" by (simp add: demo_backend_def)
  with init run show ?thesis by blast
qed

section \<open>The grammar handle\<close>

text \<open>
  Claim C8. Whenever \<^verbatim>\<open>generate_response\<close> returns (whatever left the loop: its
  guard, the antiprompt, EOS, a cancel, a stop-sequence match or the budget), the
  session's grammar pointer is null and no handle is live. A call with a non-empty
  input either made no handle, or made exactly one and has passed it to
  \<^verbatim>\<open>llama_grammar_free\<close>.
\<close>

theorem grammar_released:
  assumes "Llama B p = Inr s0" and "session B s0 calls = Some s"
    and "generate_response fuel B s input_prompt add_pfx_sfx callback = Finished (s', l)"
  shows "grammar s' = None \<and> live_grammars s' = []
       \<and> (input_prompt \<noteq> [] \<longrightarrow>
            (grammars_made s' = grammars_made s \<and> grammars_freed s' = grammars_freed s)
            \<or> (grammars_made s' = Suc (grammars_made s)
                \<and> grammars_freed s' = grammars_freed s @ [grammars_made s]))"
proof -
  from session_reachable [OF assms(1,2)]
  have inv: "length (last_n_tokens s) = llama_n_ctx B
         \<and> grammar s = None \<and> live_grammars s = []" by simp
  have "do_call B s (Generate_Response fuel input_prompt add_pfx_sfx callback) = Some s'"
    using assms(3) by simp
  from do_call_invariant [OF this inv] have "grammar s' = None \<and> live_grammars s' = []"
    by simp
  with generate_response_grammar [OF assms(3)] show ?thesis by blast
qed

text \<open>With a grammar configured, handle 0 is made and freed within the call.\<close>

theorem grammar_released_witness:
  "\<exists>s' l. Llama (demo_backend [5, 5, 9] None) (demo_params\<lparr>grammar_text := ''g''\<rparr>)
             = Inr (demo_session (demo_params\<lparr>grammar_text := ''g''\<rparr>))
        \<and> session (demo_backend [5, 5, 9] None)
             (demo_session (demo_params\<lparr>grammar_text := ''g''\<rparr>)) []
             = Some (demo_session (demo_params\<lparr>grammar_text := ''g''\<rparr>))
        \<and> generate_response 10 (demo_backend [5, 5, 9] None)
             (demo_session (demo_params\<lparr>grammar_text := ''g''\<rparr>)) ''ab'' False True
             = Finished (s', l)
        \<and> grammar s' = None \<and> live_grammars s' = []
        \<and> grammars_made s' = 1 \<and> grammars_freed s' = [0]"
proof -
  let ?B = "demo_backend [5, 5, 9] None"
  let ?S = "demo_session (demo_params\<lparr>grammar_text := ''g''\<rparr>)"
  have init: "Llama ?B (demo_params\<lparr>grammar_text := ''g''\<rparr>) = Inr ?S"
    by (rule Llama_demo) (simp add: demo_params_def)
  have sess: "session ?B ?S [] = Some ?S" by simp
  have ev: "map_option (\<lambda>s. (grammars_made s, grammars_freed s))
              (final_session (generate_response 10 ?B ?S ''ab'' False True)) = Some (1, [0])"
    by code_simp
  then obtain s' l where run: "generate_response 10 ?B ?S ''ab'' False True = Finished (s', l)"
    by (auto simp: final_session_def split: outcome.splits)
  with ev have "grammars_made s' = 1 \<and> grammars_freed s' = [0]"
    by (simp add: final_session_def)
  with grammar_released [OF init sess run] init sess run show ?thesis by blast
qed

section \<open>The budget\<close>

lemma narrow_range:
  fixes m :: int
  assumes "0 \<le> m" and "m < 2 ^ 32"
  shows "- (2 ^ 31) \<le> (if m < 2 ^ 31 then m else m - 2 ^ 32)
       \<and> (if m < 2 ^ 31 then m else m - 2 ^ 32) < 2 ^ 31"
  using assms by auto

lemma int_minus_size_t_range:
  "- (2 ^ 31) \<le> int_minus_size_t r n \<and> int_minus_size_t r n < 2 ^ 31"
  unfolding int_minus_size_t_def Let_def by (rule narrow_range) simp_all

lemma int_minus_size_t_exact:
  assumes "- (2 ^ 31) \<le> r - int n" and "r - int n < 2 ^ 31"
  shows "int_minus_size_t r n = r - int n"
proof -
  define x where "x = r - int n"
  have u: "(r mod 2 ^ 64 - int n mod 2 ^ 64) mod 2 ^ 64 = x mod 2 ^ 64"
    unfolding x_def by (rule mod_diff_eq)
  have "(2 :: int) ^ 32 dvd 2 ^ 64" by (rule le_imp_power_dvd) simp
  then have m: "(x mod 2 ^ 64) mod 2 ^ 32 = x mod 2 ^ 32"
    by (rule mod_mod_cancel)
  have eq: "int_minus_size_t r n
      = (if x mod 2 ^ 32 < 2 ^ 31 then x mod 2 ^ 32 else x mod 2 ^ 32 - 2 ^ 32)"
    unfolding int_minus_size_t_def Let_def u m ..
  from assms have rng: "- (2 ^ 31) \<le> x" "x < 2 ^ 31" by (simp_all add: x_def)
  show ?thesis
  proof (cases "0 \<le> x")
    case True
    with rng have "x mod 2 ^ 32 = x" by simp
    with rng show ?thesis unfolding eq by (simp add: x_def)
  next
    case False
    with rng have a: "(x + 2 ^ 32) mod 2 ^ 32 = x + 2 ^ 32"
      by (intro mod_pos_pos_trivial) simp_all
    have b: "(x + 2 ^ 32) mod 2 ^ 32 = x mod 2 ^ 32" by simp
    have "x mod 2 ^ 32 = x + 2 ^ 32" unfolding b [symmetric] by (rule a)
    with rng False show ?thesis unfolding eq by (simp add: x_def)
  qed
qed

lemma gen_loop_zero: "n_remain s = 0 \<Longrightarrow> gen_loop fuel B cb k s l = Finished (s, l)"
  by (cases fuel) simp_all

lemma gen_loop_count:
  assumes run: "gen_loop fuel B cb 0 sp initial_locals = Finished (s4, l)
           \<or> gen_loop fuel B cb 0 sp initial_locals = Unfinished (s4, l)"
    and fin: "n_predict (params sp) \<noteq> - 1"
  shows "int (length (response l) + length (completion_result_list l))
           \<le> (if n_remain sp = 0 then 0 else max 1 (n_remain sp))"
proof (cases "n_remain sp = 0")
  case True
  from gen_loop_zero [OF True, of fuel B cb 0 initial_locals] run
  have "l = initial_locals" by simp
  with True show ?thesis by (simp add: initial_locals_def)
next
  case False
  from gen_loop_outputs [OF run] obtain new where
    "response l = new" and
    "new @ completion_result_list l
       = map (nth_output B (params sp)) [ctx_samples sp ..< ctx_samples s4]"
    and le: "ctx_samples sp \<le> ctx_samples s4"
    by (auto simp: initial_locals_def)
  then have "length (response l) + length (completion_result_list l)
      = ctx_samples s4 - ctx_samples sp"
    by (metis length_append length_map length_upt)
  moreover from gen_loop_budget [OF run fin]
  have "int (ctx_samples s4) \<le> int (ctx_samples sp) + max 1 (n_remain sp)" .
  ultimately show ?thesis using le False by simp
qed

text \<open>
  Claim C3, as the code has it. Line 198 takes the tokens of the input from the
  budget before the loop: let \<open>r\<close> be \<^verbatim>\<open>n_remain\<close> after it, the 32-bit result of
  \<^verbatim>\<open>n_remain\<close> minus the number of input tokens. On a session with
  \<^verbatim>\<open>n_predict != -1\<close>, the outputs of one call (those in the response plus those
  still withheld in the buffer) number at most \<open>max 1 r\<close>, and none when \<open>r\<close> is
  0: the budget is tested after a token has been sampled and sent, so a call whose
  loop is entered produces one token even when the budget is spent. The bound holds
  when the call returns and at every iteration boundary before, and the call does
  return within that many iterations. When \<^verbatim>\<open>n_remain\<close> is at most
  \<^verbatim>\<open>n_predict\<close> at the call (as after the constructor, \<^verbatim>\<open>reset\<close> or a stop on the
  budget) and the subtraction stays inside the \<^verbatim>\<open>int\<close> range, the bound is at
  most \<open>max 1 (n_predict - tokens)\<close>, so at most \<^verbatim>\<open>n_predict\<close> when that is
  positive.
\<close>

theorem budget_bound:
  assumes fin: "n_predict (params s) \<noteq> - 1"
  shows "let tokens = length (tokenize_input B s input_prompt add_pfx_sfx);
             r = int_minus_size_t (n_remain s) tokens;
             bound = (if r = 0 then 0 else max 1 r)
         in (case generate_response fuel B s input_prompt add_pfx_sfx callback of
               Finished (s', l) \<Rightarrow>
                 int (length (response l) + length (completion_result_list l)) \<le> bound
             | Faulted e \<Rightarrow> True
             | Unfinished (s', l) \<Rightarrow>
                 int (length (response l) + length (completion_result_list l)) \<le> bound
                 \<and> fuel < nat bound)
            \<and> (n_remain s \<le> n_predict (params s) \<and> n_predict (params s) < 2 ^ 31
                 \<and> - (2 ^ 31) \<le> n_remain s - int tokens
               \<longrightarrow> bound \<le> max 1 (n_predict (params s) - int tokens))"
proof -
  define tokens where "tokens = length (tokenize_input B s input_prompt add_pfx_sfx)"
  define r where "r = int_minus_size_t (n_remain s) tokens"
  define bound where "bound = (if r = 0 then 0 else max 1 r)"
  have b0: "0 \<le> bound" by (simp add: bound_def max_def)
  have out: "case generate_response fuel B s input_prompt add_pfx_sfx callback of
               Finished (s', l) \<Rightarrow>
                 int (length (response l) + length (completion_result_list l)) \<le> bound
             | Faulted e \<Rightarrow> True
             | Unfinished (s', l) \<Rightarrow>
                 int (length (response l) + length (completion_result_list l)) \<le> bound
                 \<and> fuel < nat bound"
  proof (cases "input_prompt = []")
    case True
    with b0 show ?thesis by (simp add: generate_response_def initial_locals_def)
  next
    case False
    show ?thesis
    proof (cases "prime B (s\<lparr>canceled := False\<rparr>) input_prompt add_pfx_sfx")
      case (Inl e)
      with False show ?thesis by (simp add: generate_response_def)
    next
      case (Inr sp)
      from prime_cases [OF Inr] fin
      have sp: "n_remain sp = r" "n_predict (params sp) \<noteq> - 1"
        by (simp_all add: r_def tokens_def)
      have gr: "generate_response fuel B s input_prompt add_pfx_sfx callback
            = (case gen_loop fuel B callback 0 sp initial_locals of
                 Finished (s4, l) \<Rightarrow> Finished (free_grammar s4, l)
               | Faulted e \<Rightarrow> Faulted e
               | Unfinished x \<Rightarrow> Unfinished x)"
        using False Inr by (simp add: generate_response_def)
      have count: "int (length (response l) + length (completion_result_list l)) \<le> bound"
        if "gen_loop fuel B callback 0 sp initial_locals = Finished (s4, l)
             \<or> gen_loop fuel B callback 0 sp initial_locals = Unfinished (s4, l)" for s4 l
        using gen_loop_count [OF that sp(2)] unfolding sp(1) bound_def by simp
      show ?thesis
      proof (cases "gen_loop fuel B callback 0 sp initial_locals")
        case (Finished x)
        obtain s4 l where x: "x = (s4, l)" by (cases x)
        from count [of s4 l] Finished x show ?thesis unfolding gr by simp
      next
        case (Faulted e)
        then show ?thesis unfolding gr by simp
      next
        case (Unfinished x)
        obtain s4 l where x: "x = (s4, l)" by (cases x)
        have nz: "r \<noteq> 0"
          using gen_loop_zero [of sp fuel B callback 0 initial_locals] Unfinished sp(1)
          by auto
        have "\<not> nat (max 1 (n_remain sp)) \<le> fuel"
          using gen_loop_terminates [OF sp(2), of fuel B callback 0 initial_locals x] Unfinished
          by blast
        with nz have "fuel < nat bound" by (simp add: sp(1) bound_def)
        with count [of s4 l] Unfinished x show ?thesis unfolding gr by simp
      qed
    qed
  qed
  have closed: "bound \<le> max 1 (n_predict (params s) - int tokens)"
    if "n_remain s \<le> n_predict (params s) \<and> n_predict (params s) < 2 ^ 31
          \<and> - (2 ^ 31) \<le> n_remain s - int tokens"
  proof -
    from that have "n_remain s - int tokens < 2 ^ 31" by simp
    with that have "r = n_remain s - int tokens"
      unfolding r_def by (intro int_minus_size_t_exact) simp_all
    with that show ?thesis by (auto simp: bound_def max_def)
  qed
  from out closed show ?thesis
    unfolding Let_def tokens_def [symmetric] r_def [symmetric] bound_def [symmetric]
    by blast
qed

text \<open>With a budget of 5 and an input of 3 tokens, \<open>r\<close> is 2 and two tokens are
  generated.\<close>

theorem budget_bound_witness:
  "n_predict (params (demo_session (demo_params\<lparr>n_predict := 5\<rparr>))) \<noteq> - 1
   \<and> n_remain (demo_session (demo_params\<lparr>n_predict := 5\<rparr>))
       \<le> n_predict (params (demo_session (demo_params\<lparr>n_predict := 5\<rparr>)))
   \<and> n_predict (params (demo_session (demo_params\<lparr>n_predict := 5\<rparr>))) < 2 ^ 31
   \<and> - (2 ^ 31) \<le> n_remain (demo_session (demo_params\<lparr>n_predict := 5\<rparr>))
         - int (length (tokenize_input (demo_backend [1, 1, 1] None)
                  (demo_session (demo_params\<lparr>n_predict := 5\<rparr>)) ''ab'' False))
   \<and> int_minus_size_t (n_remain (demo_session (demo_params\<lparr>n_predict := 5\<rparr>)))
         (length (tokenize_input (demo_backend [1, 1, 1] None)
                  (demo_session (demo_params\<lparr>n_predict := 5\<rparr>)) ''ab'' False)) = 2
   \<and> returned_tokens (generate_response 10 (demo_backend [1, 1, 1] None)
        (demo_session (demo_params\<lparr>n_predict := 5\<rparr>)) ''ab'' False True) = Some [1, 1]
   \<and> (case generate_response 10 (demo_backend [1, 1, 1] None)
        (demo_session (demo_params\<lparr>n_predict := 5\<rparr>)) ''ab'' False True of
           Finished (s', l) \<Rightarrow>
             int (length (response l) + length (completion_result_list l)) \<le> 2
         | Faulted e \<Rightarrow> True
         | Unfinished (s', l) \<Rightarrow> False)"
proof -
  let ?B = "demo_backend [1, 1, 1] None"
  let ?S = "demo_session (demo_params\<lparr>n_predict := 5\<rparr>)"
  have fin: "n_predict (params ?S) \<noteq> - 1" by code_simp
  have le: "n_remain ?S \<le> n_predict (params ?S)" by code_simp
  have rng: "n_predict (params ?S) < 2 ^ 31" by code_simp
  have lo: "- (2 ^ 31) \<le> n_remain ?S - int (length (tokenize_input ?B ?S ''ab'' False))"
    by code_simp
  have r: "int_minus_size_t (n_remain ?S) (length (tokenize_input ?B ?S ''ab'' False)) = 2"
    by code_simp
  have ev: "returned_tokens (generate_response 10 ?B ?S ''ab'' False True) = Some [1, 1]"
    by code_simp
  from budget_bound [OF fin, of ?B "''ab''" False 10 True]
  have "case generate_response 10 ?B ?S ''ab'' False True of
           Finished (s', l) \<Rightarrow>
             int (length (response l) + length (completion_result_list l)) \<le> 2
         | Faulted e \<Rightarrow> True
         | Unfinished (s', l) \<Rightarrow> False"
    by (auto simp: Let_def r split: outcome.splits)
  with fin le rng lo r ev show ?thesis by blast
qed

text \<open>
  The claim as stated fails for the budget 0: the call returns one token. It also
  fails where the subtraction of line 198 wraps: with \<^verbatim>\<open>n_predict\<close> at
  \<open>-2147483647\<close> and an input of 3 tokens, \<^verbatim>\<open>n_remain\<close> becomes
  \<open>2147483646\<close>, and the call goes on until the sampler answers EOS, here after
  three tokens.
\<close>

theorem budget_bound_counterexample:
  "n_predict (demo_params\<lparr>n_predict := 0\<rparr>) = 0
   \<and> returned_tokens (generate_response 10 (demo_backend [1, 1, 1] None)
        (demo_session (demo_params\<lparr>n_predict := 0\<rparr>)) ''ab'' False True) = Some [1]
   \<and> int_minus_size_t (- 2147483647) 3 = 2147483646
   \<and> returned_tokens (generate_response 10 (demo_backend [1, 1, 1, 2] None)
        (demo_session (demo_params\<lparr>n_predict := - 2147483647\<rparr>)) ''ab'' False True)
       = Some [1, 1, 1]"
  by code_simp

section \<open>Context swapping\<close>

lemma eval_chunks_result:
  assumes "0 < nb"
  shows "\<exists>new. eval_chunks nb toks i np evs = (np + int (length toks - i), evs @ new)
           \<and> concat (map fst new) = drop i toks
           \<and> (i < length toks \<longrightarrow> new \<noteq> [] \<and> snd (hd new) = np)
           \<and> (\<forall>c \<in> set new. fst c \<noteq> [] \<and> int (length (fst c)) \<le> nb)"
  using assms
proof (induction nb toks i np evs rule: eval_chunks.induct)
  case (1 nb toks i np evs)
  show ?case
  proof (cases "i < length toks")
    case False
    then have "eval_chunks nb toks i np evs = (np, evs)"
      by (subst eval_chunks.simps) simp
    with False show ?thesis by simp
  next
    case True
    define n_eval where "n_eval = (if int (length toks) - int i > nb then nb
                          else int (length toks) - int i)"
    define chunk where "chunk = take (nat n_eval) (drop i toks)"
    have pos: "0 < n_eval" "n_eval \<le> nb" "n_eval \<le> int (length toks) - int i"
      using True "1.prems" by (auto simp: n_eval_def)
    have unfold: "eval_chunks nb toks i np evs
        = eval_chunks nb toks (i + nat nb) (np + n_eval) (evs @ [(chunk, np)])"
      using True "1.prems"
      by (subst eval_chunks.simps) (simp add: n_eval_def chunk_def Let_def)
    from "1.IH" [OF _ n_eval_def "1.prems"] True "1.prems"
    obtain new where
      r: "eval_chunks nb toks (i + nat nb) (np + n_eval) (evs @ [(chunk, np)])
            = (np + n_eval + int (length toks - (i + nat nb)), (evs @ [(chunk, np)]) @ new)"
      and c: "concat (map fst new) = drop (i + nat nb) toks"
      and b: "\<forall>c \<in> set new. fst c \<noteq> [] \<and> int (length (fst c)) \<le> nb"
      by (auto simp: chunk_def)
    have len: "length chunk = nat n_eval"
      using pos by (simp add: chunk_def)
    have cat: "chunk @ drop (i + nat nb) toks = drop i toks"
    proof (cases "int (length toks) - int i > nb")
      case True
      then have "n_eval = nb" by (simp add: n_eval_def)
      then show ?thesis
        by (simp add: chunk_def add.commute [of i] flip: drop_drop)
    next
      case False
      then have "nat n_eval = length toks - i" by (simp add: n_eval_def)
      moreover from False "1.prems" have "length toks \<le> i + nat nb" by simp
      ultimately show ?thesis by (simp add: chunk_def)
    qed
    have sum: "n_eval + int (length toks - (i + nat nb)) = int (length toks - i)"
      using True "1.prems" by (auto simp: n_eval_def)
    let ?new = "(chunk, np) # new"
    have "eval_chunks nb toks i np evs = (np + int (length toks - i), evs @ ?new)"
      using unfold r sum by simp
    moreover have "concat (map fst ?new) = drop i toks" using c cat by simp
    moreover have "?new \<noteq> [] \<and> snd (hd ?new) = np" by simp
    moreover have "\<forall>c \<in> set ?new. fst c \<noteq> [] \<and> int (length (fst c)) \<le> nb"
      using b len pos by auto
    ultimately show ?thesis by blast
  qed
qed

text \<open>
  Where the iterator range of the insert lies inside the history window, context
  swapping does what its comment says. Let \<open>s1\<close> be the session after the first
  loop of \<^verbatim>\<open>eval\<close>, with a non-empty pending batch, the window at its full
  length, and position plus pending batch size above the context capacity. If
  \<open>n_left/2\<close> is not negative and \<open>n_left/2 + pending\<close> is at most the capacity,
  then \<^verbatim>\<open>eval\<close> is defined, eviction comes first and sets the position to
  \<^verbatim>\<open>n_keep\<close>; the batch becomes the \<open>n_left/2\<close> tokens of the window that end
  where its last \<open>pending\<close> tokens begin, followed by the pending tokens; the
  chunks given to \<^verbatim>\<open>llama_eval\<close> make up exactly that batch, the first of them
  at position \<^verbatim>\<open>n_keep\<close>; and the position ends at \<^verbatim>\<open>n_keep\<close> plus the
  batch's size.
\<close>

lemma eviction_in_range:
  assumes d: "drain s = Inr s1"
    and ne: "batch_tokens s1 \<noteq> []"
    and over: "n_past s1 + int (length (batch_tokens s1)) > int (llama_n_ctx B)"
    and win: "length (last_n_tokens s1) = llama_n_ctx B"
    and nb: "0 < n_batch (params s1)"
    and lo: "0 \<le> (n_past s1 - n_keep (params s1)) sdiv 2"
    and hi: "(n_past s1 - n_keep (params s1)) sdiv 2 + int (length (batch_tokens s1))
               \<le> int (llama_n_ctx B)"
  shows "\<exists>s' s2 new.
           eval B s = Inr s'
         \<and> evict B s1 = Inr s2
         \<and> n_past s2 = n_keep (params s1)
         \<and> batch_tokens s2
             = take (nat ((n_past s1 - n_keep (params s1)) sdiv 2))
                 (drop (llama_n_ctx B - nat ((n_past s1 - n_keep (params s1)) sdiv 2)
                         - length (batch_tokens s1)) (last_n_tokens s1))
               @ batch_tokens s1
         \<and> int (length (batch_tokens s2))
             = (n_past s1 - n_keep (params s1)) sdiv 2 + int (length (batch_tokens s1))
         \<and> ctx_evals s' = ctx_evals s @ new
         \<and> concat (map fst new) = batch_tokens s2
         \<and> snd (hd new) = n_keep (params s1)
         \<and> n_past s' = n_keep (params s1) + int (length (batch_tokens s2))"
proof -
  let ?h = "(n_past s1 - n_keep (params s1)) sdiv 2"
  let ?first = "get_n_ctx B - ?h - int (length (batch_tokens s1))"
  let ?lst = "int (length (last_n_tokens s1)) - int (length (batch_tokens s1))"
  let ?slice = "take (nat (?lst - ?first)) (drop (nat ?first) (last_n_tokens s1))"
  define s2 where
    "s2 = s1\<lparr>n_past := n_keep (params s1), batch_tokens := ?slice @ batch_tokens s1\<rparr>"
  from lo hi win have rng: "0 \<le> ?first" "?first \<le> ?lst" by (simp_all add: get_n_ctx_def)
  with over have e: "evict B s1 = Inr s2"
    by (simp add: evict_def Let_def get_n_ctx_def s2_def)
  have nb2: "0 < n_batch (params s2)" using nb by (simp add: s2_def)
  from eval_chunks_result [OF nb2, of "batch_tokens s2" 0 "n_past s2" "ctx_evals s2"]
  obtain new where
    r: "eval_chunks (n_batch (params s2)) (batch_tokens s2) 0 (n_past s2) (ctx_evals s2)
          = (n_past s2 + int (length (batch_tokens s2)), ctx_evals s2 @ new)"
    and c: "concat (map fst new) = batch_tokens s2"
    and hd: "0 < length (batch_tokens s2) \<longrightarrow> new \<noteq> [] \<and> snd (hd new) = n_past s2"
    by auto
  define s' where
    "s' = s2\<lparr>n_past := n_past s2 + int (length (batch_tokens s2)),
              ctx_evals := ctx_evals s2 @ new, batch_tokens := []\<rparr>"
  from d ne e nb2 r have run: "eval B s = Inr s'"
    by (simp add: eval_def s'_def)
  from lo have h0: "0 \<le> ?h" .
  from rng win have diff: "nat (?lst - ?first) = nat ?h" by (simp add: get_n_ctx_def)
  from rng h0 have first: "nat ?first = llama_n_ctx B - nat ?h - length (batch_tokens s1)"
    by (simp add: get_n_ctx_def nat_diff_distrib)
  have slice: "?slice = take (nat ?h) (drop (llama_n_ctx B - nat ?h - length (batch_tokens s1))
                  (last_n_tokens s1))"
    by (simp only: diff first)
  from rng h0 win have "length ?slice = nat ?h"
    by (simp add: get_n_ctx_def)
  with h0 have len: "int (length (batch_tokens s2)) = ?h + int (length (batch_tokens s1))"
    by (simp add: s2_def)
  from ne have "0 < length (batch_tokens s2)" by (simp add: s2_def)
  with hd have hd': "snd (hd new) = n_past s2" by simp
  have "ctx_evals s2 = ctx_evals s" using drain_frame [OF d] by (simp add: s2_def)
  then have "ctx_evals s' = ctx_evals s @ new"
    and "n_past s' = n_past s2 + int (length (batch_tokens s2))"
    by (simp_all add: s'_def)
  moreover have "n_past s2 = n_keep (params s1)" by (simp add: s2_def)
  moreover have "batch_tokens s2
             = take (nat ?h) (drop (llama_n_ctx B - nat ?h - length (batch_tokens s1))
                 (last_n_tokens s1)) @ batch_tokens s1"
    using slice by (simp add: s2_def)
  ultimately show ?thesis using run e len c hd' by auto
qed

lemma demo_full_session_reached:
  "session (demo_backend [1, 3, 4, 6, 7, 2] None) (demo_session demo_params)
     [Generate_Response 10 ''ab'' False True] = Some demo_full_session"
  by code_simp

text \<open>On the full demo session with batches of four: \<open>n_left = 8\<close>, the four tokens
  3, 4, 6, 7 are taken from the window before its last token, and five tokens are
  evaluated from position 0 on.\<close>

lemma eviction_in_range_demo:
  "case eval (demo_backend [] None) demo_full_session of
     Inl e \<Rightarrow> False
   | Inr s' \<Rightarrow> n_past s' = 5
       \<and> ctx_evals s' = ctx_evals demo_full_session @ [([3, 4, 6, 7], 0), ([2], 4)]"
  by code_simp

text \<open>
  Claim C2 does not hold of the code: nothing keeps the range of the insert inside
  the window. Take a context of 8 tokens and batches of up to 8. The first call
  (input \<open>ab\<close>, the sampler answers 1, 3, 4, 6, 7 and EOS) fills the context: the
  position is 8 and the EOS token waits in the batch. In the second call the input
  \<open>cdef\<close> joins it, so 5 tokens are pending, the position plus 5 exceeds the
  capacity, \<open>n_left/2\<close> is 4, and the range of the insert starts at
  \<^verbatim>\<open>begin() + 8 - 4 - 5\<close>, one element before the window. The behaviour is not
  defined there: the claim has \<open>n_left/2 + pending = 9\<close> tokens evaluated, and
  the window from which 4 of them are to come, ending 5 before its end, holds 8.
  (Line 178 notices the long prompt, prints a message and goes on.)
\<close>

theorem eviction_slice_out_of_range:
  "Llama (demo_backend [1, 3, 4, 6, 7, 2] None) demo_wide_params
     = Inr (demo_session demo_wide_params)
   \<and> session (demo_backend [1, 3, 4, 6, 7, 2] None) (demo_session demo_wide_params)
       [Generate_Response 10 ''ab'' False True] = Some demo_wide_full_session
   \<and> n_past demo_wide_full_session = 8
   \<and> batch_tokens demo_wide_full_session = [2]
   \<and> generate_response 10 (demo_backend [1, 3, 4, 6, 7, 2] None) demo_wide_full_session
       ''cdef'' False True = Faulted Slice_Out_Of_Range"
proof -
  have "Llama (demo_backend [1, 3, 4, 6, 7, 2] None) demo_wide_params
     = Inr (demo_session demo_wide_params)"
    by (rule Llama_demo) (simp add: demo_wide_params_def demo_params_def)
  moreover have "session (demo_backend [1, 3, 4, 6, 7, 2] None) (demo_session demo_wide_params)
       [Generate_Response 10 ''ab'' False True] = Some demo_wide_full_session"
    by code_simp
  moreover have "n_past demo_wide_full_session = 8" by code_simp
  moreover have "batch_tokens demo_wide_full_session = [2]" by code_simp
  moreover have "generate_response 10 (demo_backend [1, 3, 4, 6, 7, 2] None)
       demo_wide_full_session ''cdef'' False True = Faulted Slice_Out_Of_Range"
    by code_simp
  ultimately show ?thesis by blast
qed

section \<open>The buffer of withheld outputs\<close>

lemma after_sampling_buffer:
  assumes a: "after_sampling B cb k s l = Inr (fl, s', l')"
    and ap: "antiprompt (params s) = ap # rest" "ap \<noteq> []"
    and ne: "\<not> input_noecho l"
  shows "(fl = Break \<and> l' = l
            \<and> (last (batch_tokens s) = llama_token_eos B \<or> canceled s \<or> cancel_requested B k))
       \<or> (map token (completion_result_list l) = inp_stop s \<and> fl = Break
            \<and> l' = l\<lparr>stopping := True\<rparr>)
       \<or> (length (completion_result_list l) < length (inp_stop s)
            \<and> map token (completion_result_list l)
                = take (length (completion_result_list l)) (inp_stop s)
            \<and> l' = l\<lparr>stopping := True\<rparr>)
       \<or> (\<not> (length (completion_result_list l) \<le> length (inp_stop s)
               \<and> map token (completion_result_list l)
                   = take (length (completion_result_list l)) (inp_stop s))
            \<and> l' = l\<lparr>stopping := False,
                      response := response l @ completion_result_list l,
                      delivered := delivered l
                         @ (if cb then completion_result_list l else []),
                      completion_result_list := []\<rparr>)"
proof -
  let ?s3 = "s\<lparr>canceled := False\<rparr>"
  have ap3: "antiprompt (params ?s3) = ap # rest" using ap by simp
  have stop3: "inp_stop ?s3 = inp_stop s" by simp
  show ?thesis
  proof (cases "last (batch_tokens s) = llama_token_eos B \<or> canceled s \<or> cancel_requested B k")
    case True
    with a show ?thesis
      by (auto simp: after_sampling_def Let_def split: if_splits)
  next
    case False
    with a have a': "(case check_stop ?s3 l of
                       Inl e \<Rightarrow> Inl e
                     | Inr (Break, l3) \<Rightarrow> Inr (Break, ?s3, l3)
                     | Inr (Continue, l3) \<Rightarrow>
                         (let l4 = send_text cb l3
                          in if n_remain ?s3 \<le> 0 \<and> n_predict (params ?s3) \<noteq> - 1
                             then Inr (Break, ?s3\<lparr>n_remain := n_predict (params ?s3)\<rparr>, l4)
                             else Inr (Continue, ?s3, l4))) = Inr (fl, s', l')"
      by (auto simp: after_sampling_def Let_def split: if_splits)
    show ?thesis
    proof (cases "length (completion_result_list l) \<le> length (inp_stop s)
               \<and> map token (completion_result_list l)
                   = take (length (completion_result_list l)) (inp_stop s)")
      case match: True
      show ?thesis
      proof (cases "length (completion_result_list l) = length (inp_stop s)")
        case True
        with match ap(2) a' have "fl = Break \<and> l' = l\<lparr>stopping := True\<rparr>"
          by (simp add: check_stop_eq [OF ap3])
        with match True show ?thesis by simp
      next
        case False
        with match ap(2) a' have "l' = l\<lparr>stopping := True\<rparr>"
          by (auto simp: check_stop_eq [OF ap3] send_text_def Let_def split: if_splits)
        with match False show ?thesis by simp
      qed
    next
      case False
      with a' ne have "l' = l\<lparr>stopping := False,
                      response := response l @ completion_result_list l,
                      delivered := delivered l
                         @ (if cb then completion_result_list l else []),
                      completion_result_list := []\<rparr>"
        by (auto simp: check_stop_eq [OF ap3] send_text_def Let_def split: if_splits)
      with False show ?thesis by simp
    qed
  qed
qed

lemma after_sampling_continue:
  assumes "after_sampling B cb k s l = Inr (Continue, s', l')"
  shows "\<not> canceled s'"
  using assms
  by (auto simp: after_sampling_def Let_def split: if_splits sum.splits prod.splits flow.splits)

lemma loop_body_buffer:
  assumes b: "loop_body B cb k s l = Inr (fl, s', l')"
    and smp: "ctx_samples s' \<noteq> ctx_samples s"
    and ap: "antiprompt (params s) = ap # rest" "ap \<noteq> []"
  shows "same_config s s' \<and> ctx_samples s' = Suc (ctx_samples s)
       \<and> (fl = Continue \<longrightarrow> \<not> canceled s')
       \<and> ((fl = Break
             \<and> l' = l\<lparr>completion_result_list := completion_result_list l
                          @ [nth_output B (params s) (ctx_samples s)],
                      input_noecho := False\<rparr>
             \<and> (fst (llama_sample_token B (ctx_samples s)) = llama_token_eos B
                 \<or> canceled s \<or> cancel_requested B k))
          \<or> (map token (completion_result_list l) @ [fst (llama_sample_token B (ctx_samples s))]
               = inp_stop s
             \<and> fl = Break
             \<and> l' = l\<lparr>completion_result_list := completion_result_list l
                          @ [nth_output B (params s) (ctx_samples s)],
                      input_noecho := False, stopping := True\<rparr>)
          \<or> (Suc (length (completion_result_list l)) < length (inp_stop s)
             \<and> map token (completion_result_list l)
                  @ [fst (llama_sample_token B (ctx_samples s))]
                = take (Suc (length (completion_result_list l))) (inp_stop s)
             \<and> l' = l\<lparr>completion_result_list := completion_result_list l
                          @ [nth_output B (params s) (ctx_samples s)],
                      input_noecho := False, stopping := True\<rparr>)
          \<or> (\<not> (Suc (length (completion_result_list l)) \<le> length (inp_stop s)
                 \<and> map token (completion_result_list l)
                      @ [fst (llama_sample_token B (ctx_samples s))]
                    = take (Suc (length (completion_result_list l))) (inp_stop s))
             \<and> l' = l\<lparr>input_noecho := False, stopping := False,
                      response := response l @ completion_result_list l
                          @ [nth_output B (params s) (ctx_samples s)],
                      delivered := delivered l
                          @ (if cb then completion_result_list l
                                          @ [nth_output B (params s) (ctx_samples s)]
                             else []),
                      completion_result_list := []\<rparr>))"
proof -
  let ?co = "nth_output B (params s) (ctx_samples s)"
  let ?l2 = "l\<lparr>completion_result_list := completion_result_list l @ [?co],
               input_noecho := False\<rparr>"
  from loop_body_cases [OF b] smp obtain s2 where
    c: "same_config s s2" "ctx_samples s2 = Suc (ctx_samples s)" "canceled s2 = canceled s"
      "last (batch_tokens s2) = token ?co"
    and a: "after_sampling B cb k s2 ?l2 = Inr (fl, s', l')"
    by auto
  from c(1) ap have ap2: "antiprompt (params s2) = ap # rest"
    and st: "inp_stop s2 = inp_stop s" by (simp_all add: same_config_def)
  have ne: "\<not> input_noecho ?l2" by simp
  note f = after_sampling_frame [OF a]
  from f c(1) have sc: "same_config s s'" by (blast intro: same_config_trans)
  from f c(2) have cs: "ctx_samples s' = Suc (ctx_samples s)" by simp
  have cont: "fl = Continue \<longrightarrow> \<not> canceled s'"
    using a by (auto dest: after_sampling_continue)
  from after_sampling_buffer [OF a ap2 ap(2) ne] sc cs cont show ?thesis
    by (elim disjE conjE) (simp_all add: st c(3) c(4) token_nth_output)
qed

lemma gen_loop_advance:
  assumes run: "gen_loop fuel B cb k s l = Finished (s', l')
                \<or> gen_loop fuel B cb k s l = Unfinished (s', l')"
    and more: "ctx_samples s < ctx_samples s'"
  obtains f1 fl s1 l1 where "fuel = Suc f1" and "n_remain s \<noteq> 0"
    and "loop_body B cb k s l = Inr (fl, s1, l1)"
    and "ctx_samples s1 = Suc (ctx_samples s)"
    and "(fl = Break \<and> s' = s1 \<and> l' = l1 \<and> gen_loop fuel B cb k s l = Finished (s', l'))
         \<or> (fl = Continue
             \<and> (gen_loop f1 B cb (Suc k) s1 l1 = Finished (s', l')
                 \<or> gen_loop f1 B cb (Suc k) s1 l1 = Unfinished (s', l'))
             \<and> (gen_loop fuel B cb k s l = Finished (s', l')
                  \<longleftrightarrow> gen_loop f1 B cb (Suc k) s1 l1 = Finished (s', l')))"
proof (cases fuel)
  case 0
  with run more show ?thesis by (auto split: if_splits)
next
  case (Suc f1)
  from run more Suc have nz: "n_remain s \<noteq> 0" by (auto split: if_splits)
  with run Suc obtain fl s1 l1 where b: "loop_body B cb k s l = Inr (fl, s1, l1)"
    by (cases "loop_body B cb k s l") (auto split: prod.splits)
  note st = loop_body_step [OF b]
  show ?thesis
  proof (cases fl)
    case Break
    with run Suc nz b have e: "s' = s1" "l' = l1" "gen_loop fuel B cb k s l = Finished (s', l')"
      by auto
    with st more have "ctx_samples s1 = Suc (ctx_samples s)" by simp
    with that [OF Suc nz b] Break e show ?thesis by simp
  next
    case Continue
    with run Suc nz b have r: "gen_loop f1 B cb (Suc k) s1 l1 = Finished (s', l')
                 \<or> gen_loop f1 B cb (Suc k) s1 l1 = Unfinished (s', l')"
      and eq: "gen_loop fuel B cb k s l = gen_loop f1 B cb (Suc k) s1 l1"
      by auto
    from st Continue have "ctx_samples s1 = Suc (ctx_samples s)" by simp
    with that [OF Suc nz b] Continue r eq show ?thesis by simp
  qed
qed

section \<open>The stop sequence\<close>

lemma stop_buffer_next:
  fixes pre stop :: "llama_token list"
  assumes "stop \<noteq> []" and "hd stop \<notin> set pre" and "n < length pre + length stop"
  shows "(n < length pre \<longrightarrow>
            take (n - length pre) stop = [] \<and> (pre @ stop) ! n = pre ! n
            \<and> [pre ! n] \<noteq> take (Suc 0) stop
            \<and> take (Suc n) pre = take n pre @ [pre ! n]
            \<and> take (Suc n - length pre) stop = [])
       \<and> (length pre \<le> n \<longrightarrow>
            take (n - length pre) stop @ [(pre @ stop) ! n]
              = take (Suc (n - length pre)) stop
            \<and> length (take (n - length pre) stop) = n - length pre
            \<and> Suc (n - length pre) \<le> length stop
            \<and> Suc n - length pre = Suc (n - length pre)
            \<and> take n pre = pre \<and> take (Suc n) pre = pre)"
proof (intro conjI impI)
  assume n: "n < length pre"
  then show "take (n - length pre) stop = []" "(pre @ stop) ! n = pre ! n"
    "take (Suc n) pre = take n pre @ [pre ! n]" "take (Suc n - length pre) stop = []"
    by (simp_all add: nth_append take_Suc_conv_app_nth)
  from n have "pre ! n \<in> set pre" by simp
  with assms(2) have "pre ! n \<noteq> hd stop" by auto
  with assms(1) show "[pre ! n] \<noteq> take (Suc 0) stop" by (cases stop) auto
next
  assume n: "length pre \<le> n"
  with assms(3) have lt: "n - length pre < length stop" by simp
  from n have "(pre @ stop) ! n = stop ! (n - length pre)" by (simp add: nth_append)
  with lt show "take (n - length pre) stop @ [(pre @ stop) ! n]
              = take (Suc (n - length pre)) stop"
    by (simp add: take_Suc_conv_app_nth)
  from lt show "length (take (n - length pre) stop) = n - length pre"
    "Suc (n - length pre) \<le> length stop" by simp_all
  from n show "Suc n - length pre = Suc (n - length pre)" "take n pre = pre"
    "take (Suc n) pre = pre" by simp_all
qed

lemma gen_loop_stop_sequence:
  fixes pre stop :: "llama_token list"
  assumes stop: "stop \<noteq> []" and pre: "hd stop \<notin> set pre" and ap: "ap \<noteq> []"
    and smp: "\<forall>i < length pre + length stop.
                fst (llama_sample_token B (c0 + i)) = (pre @ stop) ! i"
    and J: "ctx_samples s = c0 + n" "n < length pre + length stop"
       "map token (response l) = take n pre"
       "map token (delivered l) = (if cb then take n pre else [])"
       "map token (completion_result_list l) = take (n - length pre) stop"
       "inp_stop s = stop" "antiprompt (params s) = ap # rest"
    and run: "gen_loop fuel B cb k s l = Finished (s', l')
              \<or> gen_loop fuel B cb k s l = Unfinished (s', l')"
    and enough: "c0 + length pre + length stop \<le> ctx_samples s'"
  shows "gen_loop fuel B cb k s l = Finished (s', l')
       \<and> ctx_samples s' = c0 + length pre + length stop
       \<and> map token (response l') = pre
       \<and> map token (delivered l') = (if cb then pre else [])
       \<and> map token (completion_result_list l') = stop"
  using J run
proof (induction fuel arbitrary: k s l n)
  case 0
  from "0.prems"(8) "0.prems"(1,2) enough show ?case
    by (auto split: if_splits)
next
  case (Suc fuel)
  note J = Suc.prems(1-7) and run = Suc.prems(8)
  let ?t = "fst (llama_sample_token B (ctx_samples s))"
  let ?co = "nth_output B (params s) (ctx_samples s)"
  from J(1,2) enough have more: "ctx_samples s < ctx_samples s'" by simp
  from smp J(1,2) have t: "?t = (pre @ stop) ! n" by simp
  have tok: "token ?co = (pre @ stop) ! n" using t by (simp add: token_nth_output)
  note nx = stop_buffer_next [OF stop pre J(2)]
  have lenb: "length (completion_result_list l) = length (take (n - length pre) stop)"
    using J(5) by (metis length_map)
  from run more obtain f1 fl s1 l1 where
    f1: "Suc fuel = Suc f1"
    and b: "loop_body B cb k s l = Inr (fl, s1, l1)"
    and cs: "ctx_samples s1 = Suc (ctx_samples s)"
    and alt: "(fl = Break \<and> s' = s1 \<and> l' = l1
                \<and> gen_loop (Suc fuel) B cb k s l = Finished (s', l'))
         \<or> (fl = Continue
             \<and> (gen_loop f1 B cb (Suc k) s1 l1 = Finished (s', l')
                 \<or> gen_loop f1 B cb (Suc k) s1 l1 = Unfinished (s', l'))
             \<and> (gen_loop (Suc fuel) B cb k s l = Finished (s', l')
                  \<longleftrightarrow> gen_loop f1 B cb (Suc k) s1 l1 = Finished (s', l')))"
    by (rule gen_loop_advance)
  from cs have ne: "ctx_samples s1 \<noteq> ctx_samples s" by simp
  note buf = loop_body_buffer [OF b ne J(7) ap]
  from buf have sc: "same_config s s1" by simp
  with J(6,7) have st1: "inp_stop s1 = stop" "antiprompt (params s1) = ap # rest"
    by (simp_all add: same_config_def)
  from cs J(1) have cs1: "ctx_samples s1 = c0 + Suc n" by simp
  from alt show ?case
  proof
    assume "fl = Break \<and> s' = s1 \<and> l' = l1
                \<and> gen_loop (Suc fuel) B cb k s l = Finished (s', l')"
    then have brk: "fl = Break" and e: "s' = s1" "l' = l1"
      and fin: "gen_loop (Suc fuel) B cb k s l = Finished (s', l')" by simp_all
    from e cs1 enough J(2) have n: "Suc n = length pre + length stop" by simp
    with stop have ge: "length pre \<le> n" by (cases stop) auto
    from n ge have full: "Suc (n - length pre) = length stop" by simp
    from nx ge full have bt: "take (n - length pre) stop @ [(pre @ stop) ! n] = stop"
      and tp: "take n pre = pre" by simp_all
    from buf brk have "map token (response l1) = map token (response l)
        \<and> map token (delivered l1) = map token (delivered l)
        \<and> map token (completion_result_list l1)
            = map token (completion_result_list l) @ [token ?co]"
      using lenb full J(5,6) bt t
      by (elim conjE disjE) (auto simp: token_nth_output)
    with J(3,4,5) tok bt tp fin e cs1 n show ?thesis by simp
  next
    assume "fl = Continue
             \<and> (gen_loop f1 B cb (Suc k) s1 l1 = Finished (s', l')
                 \<or> gen_loop f1 B cb (Suc k) s1 l1 = Unfinished (s', l'))
             \<and> (gen_loop (Suc fuel) B cb k s l = Finished (s', l')
                  \<longleftrightarrow> gen_loop f1 B cb (Suc k) s1 l1 = Finished (s', l'))"
    then have cont: "fl = Continue"
      and rest: "gen_loop f1 B cb (Suc k) s1 l1 = Finished (s', l')
                 \<or> gen_loop f1 B cb (Suc k) s1 l1 = Unfinished (s', l')"
      and iff: "gen_loop (Suc fuel) B cb k s l = Finished (s', l')
                  \<longleftrightarrow> gen_loop f1 B cb (Suc k) s1 l1 = Finished (s', l')"
      by blast+
    from f1 have f: "f1 = fuel" by simp
    have J1: "Suc n < length pre + length stop
        \<and> map token (response l1) = take (Suc n) pre
        \<and> map token (delivered l1) = (if cb then take (Suc n) pre else [])
        \<and> map token (completion_result_list l1) = take (Suc n - length pre) stop"
    proof (cases "n < length pre")
      case True
      with nx have e: "take (n - length pre) stop = []" "(pre @ stop) ! n = pre ! n"
        "[pre ! n] \<noteq> take (Suc 0) stop" "take (Suc n) pre = take n pre @ [pre ! n]"
        "take (Suc n - length pre) stop = []" by simp_all
      from J(5) e(1) have crl: "completion_result_list l = []" by simp
      from buf cont crl t e(2,3) J(6) stop have
        "l1 = l\<lparr>input_noecho := False, stopping := False,
                response := response l @ [?co],
                delivered := delivered l @ (if cb then [?co] else []),
                completion_result_list := []\<rparr>"
        by (elim conjE disjE) auto
      with J(3,4) tok e True stop show ?thesis by (cases stop) auto
    next
      case False
      then have ge: "length pre \<le> n" by simp
      with nx have e: "take (n - length pre) stop @ [(pre @ stop) ! n]
              = take (Suc (n - length pre)) stop"
        "length (take (n - length pre) stop) = n - length pre"
        "Suc (n - length pre) \<le> length stop"
        "Suc n - length pre = Suc (n - length pre)"
        "take n pre = pre" "take (Suc n) pre = pre" by simp_all
      from buf cont lenb e(1,2,3) J(5,6) t have
        "Suc (n - length pre) < length stop
         \<and> l1 = l\<lparr>completion_result_list := completion_result_list l @ [?co],
                   input_noecho := False, stopping := True\<rparr>"
        by (elim conjE disjE) auto
      with J(3,4,5) tok e ge show ?thesis by auto
    qed
    from Suc.IH [of s1 "Suc n" l1 "Suc k"] cs1 J1 st1 rest f
    have "gen_loop fuel B cb (Suc k) s1 l1 = Finished (s', l')
       \<and> ctx_samples s' = c0 + length pre + length stop
       \<and> map token (response l') = pre
       \<and> map token (delivered l') = (if cb then pre else [])
       \<and> map token (completion_result_list l') = stop"
      by simp
    with iff f show ?thesis by simp
  qed
qed

section \<open>Withholding and flushing\<close>

lemma prime_nonempty_samples:
  assumes "generate_response fuel B s input_prompt add_pfx_sfx cb = Finished (s', l)
           \<or> generate_response fuel B s input_prompt add_pfx_sfx cb = Unfinished (s', l)"
    and "ctx_samples s < ctx_samples s'"
  obtains sp s4 where "input_prompt \<noteq> []"
    and "prime B (s\<lparr>canceled := False\<rparr>) input_prompt add_pfx_sfx = Inr sp"
    and "gen_loop fuel B cb 0 sp initial_locals = Finished (s4, l)
         \<or> gen_loop fuel B cb 0 sp initial_locals = Unfinished (s4, l)"
    and "ctx_samples s4 = ctx_samples s'"
    and "generate_response fuel B s input_prompt add_pfx_sfx cb = Finished (s', l)
         \<longleftrightarrow> gen_loop fuel B cb 0 sp initial_locals = Finished (s4, l)"
proof -
  have ne: "input_prompt \<noteq> []"
  proof
    assume "input_prompt = []"
    with assms(1) have "s' = s\<lparr>canceled := False\<rparr>" by (auto simp: generate_response_def)
    with assms(2) show False by simp
  qed
  from assms(1) show ?thesis
  proof
    assume fin: "generate_response fuel B s input_prompt add_pfx_sfx cb = Finished (s', l)"
    from this ne obtain sp s4 where
      p: "prime B (s\<lparr>canceled := False\<rparr>) input_prompt add_pfx_sfx = Inr sp"
      and g: "gen_loop fuel B cb 0 sp initial_locals = Finished (s4, l)"
      and s': "s' = free_grammar s4"
      by (rule generate_response_Finished)
    have "ctx_samples s' = ctx_samples s4" unfolding s' by (subst free_grammar_frame) simp
    with that [OF ne p] g fin show ?thesis by simp
  next
    assume unf: "generate_response fuel B s input_prompt add_pfx_sfx cb = Unfinished (s', l)"
    then obtain sp where
      p: "prime B (s\<lparr>canceled := False\<rparr>) input_prompt add_pfx_sfx = Inr sp"
      and g: "gen_loop fuel B cb 0 sp initial_locals = Unfinished (s', l)"
      by (rule generate_response_Unfinished)
    with that [OF ne p, of s'] unf show ?thesis by simp
  qed
qed

text \<open>
  Where the check finds the stop sequence. The loop compares the outputs buffered
  since the last flush with the stop tokens, from the first stop token on. So let a
  stop phrase be configured, and let the sampler answer with tokens \<open>pre\<close>, none
  of them the first stop token, and then with the stop tokens (for the stop tokens
  5, 9: the answers 1, 5, 9). Every run of \<^verbatim>\<open>generate_response\<close> that gets as
  far as sampling the last of them returns right there: no further token is
  sampled, the returned response and the callback hold exactly \<open>pre\<close>, and the
  stop tokens are in the buffer that is dropped at the return.
\<close>

lemma stop_sequence_withheld:
  assumes stop: "inp_stop s = stop" "stop \<noteq> []"
    and ap: "antiprompt (params s) = ap # rest" "ap \<noteq> []"
    and pre: "hd stop \<notin> set pre"
    and smp: "\<forall>i < length pre + length stop.
                fst (llama_sample_token B (ctx_samples s + i)) = (pre @ stop) ! i"
    and run: "generate_response fuel B s input_prompt add_pfx_sfx callback = Finished (s', l)
              \<or> generate_response fuel B s input_prompt add_pfx_sfx callback
                   = Unfinished (s', l)"
    and enough: "ctx_samples s + length pre + length stop \<le> ctx_samples s'"
  shows "generate_response fuel B s input_prompt add_pfx_sfx callback = Finished (s', l)
       \<and> ctx_samples s' = ctx_samples s + length pre + length stop
       \<and> map token (response l) = pre
       \<and> map token (delivered l) = (if callback then pre else [])
       \<and> map token (completion_result_list l) = stop"
proof -
  from stop(2) enough have more: "ctx_samples s < ctx_samples s'" by (cases stop) auto
  from run more obtain sp s4 where
    ne: "input_prompt \<noteq> []"
    and p: "prime B (s\<lparr>canceled := False\<rparr>) input_prompt add_pfx_sfx = Inr sp"
    and g: "gen_loop fuel B callback 0 sp initial_locals = Finished (s4, l)
         \<or> gen_loop fuel B callback 0 sp initial_locals = Unfinished (s4, l)"
    and c4: "ctx_samples s4 = ctx_samples s'"
    and iff: "generate_response fuel B s input_prompt add_pfx_sfx callback = Finished (s', l)
         \<longleftrightarrow> gen_loop fuel B callback 0 sp initial_locals = Finished (s4, l)"
    by (rule prime_nonempty_samples)
  from prime_cases [OF p] stop ap have sp: "ctx_samples sp = ctx_samples s + 0"
    "inp_stop sp = stop" "antiprompt (params sp) = ap # rest" by simp_all
  have "gen_loop fuel B callback 0 sp initial_locals = Finished (s4, l)
       \<and> ctx_samples s4 = ctx_samples s + length pre + length stop
       \<and> map token (response l) = pre
       \<and> map token (delivered l) = (if callback then pre else [])
       \<and> map token (completion_result_list l) = stop"
  proof (rule gen_loop_stop_sequence [OF stop(2) pre ap(2) smp sp(1) _ _ _ _ sp(2,3) g])
    show "0 < length pre + length stop" using stop(2) by simp
    show "map token (response initial_locals) = take 0 pre"
      "map token (delivered initial_locals) = (if callback then take 0 pre else [])"
      "map token (completion_result_list initial_locals) = take (0 - length pre) stop"
      by (simp_all add: initial_locals_def)
    show "ctx_samples s + length pre + length stop \<le> ctx_samples s4"
      using enough c4 by simp
  qed
  with iff c4 show ?thesis by simp
qed

text \<open>The example of the specification: stop tokens 5, 9 and the sampler's answers
  1, 5, 9, 3. The response is the token 1 and the sampler is asked three times. The
  same holds after a partial match that was flushed: with the answers 5, 7, 5, 9, 3
  the response is 5, 7.\<close>

lemma stop_sequence_withheld_demo:
  "inp_stop (demo_session demo_params) = [5, 9]
   \<and> returned_tokens (generate_response 10 (demo_backend [1, 5, 9, 3] None)
        (demo_session demo_params) ''ab'' False True) = Some [1]
   \<and> callback_tokens (generate_response 10 (demo_backend [1, 5, 9, 3] None)
        (demo_session demo_params) ''ab'' False True) = Some [1]
   \<and> map_option ctx_samples (final_session (generate_response 10
        (demo_backend [1, 5, 9, 3] None) (demo_session demo_params) ''ab'' False True))
     = Some 3
   \<and> returned_tokens (generate_response 10 (demo_backend [5, 7, 5, 9, 3] None)
        (demo_session demo_params) ''ab'' False True) = Some [5, 7]"
  by code_simp

text \<open>
  Claim C1 does not hold of the code. The stop tokens are 5, 9 and the sampler
  answers 5, 5, 9, so the produced sequence contains the full stop sequence, with
  the one token 5 before it. The check of lines 271-289 compares the outputs
  buffered since the last flush with the stop tokens, always from the first stop
  token on: the buffer 5, 5 fails the comparison at its second element and is sent
  whole, the first token of the stop sequence with it, and 9 alone matches nothing
  and is sent too. The caller receives 5, 5, 9 in the response and through the
  callback, the stop tokens among them, where the claim has the response 5 and the
  stop tokens never delivered. (The call ends one iteration later, at the
  antiprompt test on the detokenized window.)
\<close>

theorem stop_sequence_missed:
  "inp_stop (demo_session demo_params) = [5, 9]
   \<and> returned_tokens (generate_response 10 (demo_backend [5, 5, 9] None)
        (demo_session demo_params) ''ab'' False True) = Some [5, 5, 9]
   \<and> callback_tokens (generate_response 10 (demo_backend [5, 5, 9] None)
        (demo_session demo_params) ''ab'' False True) = Some [5, 5, 9]"
  by code_simp

lemma gen_loop_response_extends:
  assumes "gen_loop fuel B cb k s l = Finished (s', l')
           \<or> gen_loop fuel B cb k s l = Unfinished (s', l')"
  shows "\<exists>more. map token (response l') = map token (response l) @ more
           \<and> map token (delivered l') = map token (delivered l) @ (if cb then more else [])"
proof -
  from gen_loop_outputs [OF assms] obtain new where
    "response l' = response l @ new" "delivered l' = delivered l @ (if cb then new else [])"
    by blast
  then have "map token (response l') = map token (response l) @ map token new
           \<and> map token (delivered l') = map token (delivered l)
                @ (if cb then map token new else [])" by simp
  then show ?thesis by blast
qed

text \<open>An iteration that samples EOS, or in which a cancel is seen, leaves the loop
  before the stop check and the send: the new output stays in the buffer.\<close>

lemma loop_body_exit:
  assumes b: "loop_body B cb k s l = Inr (fl, s', l')"
    and smp: "ctx_samples s' \<noteq> ctx_samples s"
    and ex: "fst (llama_sample_token B (ctx_samples s)) = llama_token_eos B
             \<or> cancel_requested B k"
  shows "fl = Break
       \<and> l' = l\<lparr>completion_result_list := completion_result_list l
                    @ [nth_output B (params s) (ctx_samples s)],
                input_noecho := False\<rparr>"
proof -
  from loop_body_cases [OF b] smp obtain s2 where
    c: "last (batch_tokens s2) = token (nth_output B (params s) (ctx_samples s))"
      "batch_tokens s2 \<noteq> []"
    and a: "after_sampling B cb k s2
              (l\<lparr>completion_result_list := completion_result_list l
                    @ [nth_output B (params s) (ctx_samples s)],
                 input_noecho := False\<rparr>) = Inr (fl, s', l')"
    by auto
  from ex c(1) have "last (batch_tokens s2) = llama_token_eos B \<or> cancel_requested B k"
    by (simp add: token_nth_output)
  with a c(2) show ?thesis
    by (auto simp: after_sampling_def Let_def split: if_splits)
qed

text \<open>The first iterations of a run, as runs on one and two units of fuel.\<close>

lemma gen_loop_one:
  assumes "n_remain s \<noteq> 0" and "loop_body B cb k s l = Inr (Continue, s1, l1)"
    and "n_remain s1 \<noteq> 0"
  shows "gen_loop 1 B cb k s l = Unfinished (s1, l1)"
  using assms by simp

lemma gen_loop_two:
  assumes "n_remain s \<noteq> 0" and "loop_body B cb k s l = Inr (Continue, s1, l1)"
    and "n_remain s1 \<noteq> 0" and "loop_body B cb (Suc k) s1 l1 = Inr (Continue, s2, l2)"
    and "n_remain s2 \<noteq> 0"
  shows "gen_loop 2 B cb k s l = Unfinished (s2, l2)"
  using assms by (simp add: numeral_2_eq_2)

lemma generate_response_Unfinished_intro:
  assumes "input_prompt \<noteq> []"
    and "prime B (s\<lparr>canceled := False\<rparr>) input_prompt add_pfx_sfx = Inr sp"
    and "gen_loop fuel B cb 0 sp initial_locals = Unfinished x"
  shows "generate_response fuel B s input_prompt add_pfx_sfx cb = Unfinished x"
  using assms by (simp add: generate_response_def)

text \<open>
  Claim C4, as the code has it. Let the stop tokens be 5, 9 with a stop phrase
  configured, and let the sampler's first three answers in a call be 5, 7, 3. In
  every run of \<^verbatim>\<open>generate_response\<close> that samples the three tokens (the state
  after one or two iterations is what the run on one or two units of fuel ends in):
  \<^item> after the first iteration nothing has been delivered, neither to the response
    nor to the callback, and 5 is withheld in the buffer;
  \<^item> after the second iteration, in which 7 broke the match, 5 and 7 have both
    been delivered, in this order, and the buffer is empty: they went out in the
    one send loop of that iteration;
  \<^item> in the third iteration 3 is delivered as well, so that the response and what
    the callback received begin with 5, 7, 3; unless 3 is the backend's EOS token
    or a cancel is seen in that iteration: both leave the loop before the send, and
    the call returns the response 5, 7 with 3 left in the buffer.
\<close>

theorem partial_match_flushed:
  assumes stop: "inp_stop s = [5, 9]"
    and ap: "antiprompt (params s) = ap # rest" "ap \<noteq> []"
    and smp: "fst (llama_sample_token B (ctx_samples s)) = 5"
       "fst (llama_sample_token B (Suc (ctx_samples s))) = 7"
       "fst (llama_sample_token B (Suc (Suc (ctx_samples s)))) = 3"
    and run: "generate_response fuel B s input_prompt add_pfx_sfx callback = Finished (s', l)
              \<or> generate_response fuel B s input_prompt add_pfx_sfx callback
                   = Unfinished (s', l)"
    and enough: "ctx_samples s + 3 \<le> ctx_samples s'"
  shows "(\<exists>s1 l1. generate_response 1 B s input_prompt add_pfx_sfx callback
                     = Unfinished (s1, l1)
            \<and> response l1 = [] \<and> delivered l1 = []
            \<and> map token (completion_result_list l1) = [5])
       \<and> (\<exists>s2 l2. generate_response 2 B s input_prompt add_pfx_sfx callback
                     = Unfinished (s2, l2)
            \<and> map token (response l2) = [5, 7]
            \<and> map token (delivered l2) = (if callback then [5, 7] else [])
            \<and> completion_result_list l2 = [])
       \<and> (if llama_token_eos B = 3 \<or> cancel_requested B 2
          then generate_response fuel B s input_prompt add_pfx_sfx callback = Finished (s', l)
               \<and> ctx_samples s' = ctx_samples s + 3
               \<and> map token (response l) = [5, 7]
               \<and> map token (delivered l) = (if callback then [5, 7] else [])
               \<and> map token (completion_result_list l) = [3]
          else (\<exists>more. map token (response l) = [5, 7, 3] @ more
                  \<and> map token (delivered l)
                      = (if callback then [5, 7, 3] @ more else [])))"
proof -
  from enough have more: "ctx_samples s < ctx_samples s'" by simp
  from run more obtain sp s4 where
    ne: "input_prompt \<noteq> []"
    and p: "prime B (s\<lparr>canceled := False\<rparr>) input_prompt add_pfx_sfx = Inr sp"
    and g: "gen_loop fuel B callback 0 sp initial_locals = Finished (s4, l)
         \<or> gen_loop fuel B callback 0 sp initial_locals = Unfinished (s4, l)"
    and c4: "ctx_samples s4 = ctx_samples s'"
    and iff: "generate_response fuel B s input_prompt add_pfx_sfx callback = Finished (s', l)
         \<longleftrightarrow> gen_loop fuel B callback 0 sp initial_locals = Finished (s4, l)"
    by (rule prime_nonempty_samples)
  from prime_cases [OF p] stop ap have sp: "ctx_samples sp = ctx_samples s"
    "inp_stop sp = [5, 9]" "antiprompt (params sp) = ap # rest" by simp_all
  \<comment> \<open>first iteration: 5 starts a match and is withheld\<close>
  from g sp(1) c4 enough obtain f1 fl1 s1 l1 where
    nz0: "n_remain sp \<noteq> 0"
    and b1: "loop_body B callback 0 sp initial_locals = Inr (fl1, s1, l1)"
    and cs1: "ctx_samples s1 = Suc (ctx_samples sp)"
    and alt1: "(fl1 = Break \<and> s4 = s1 \<and> l = l1
                \<and> gen_loop fuel B callback 0 sp initial_locals = Finished (s4, l))
         \<or> (fl1 = Continue
             \<and> (gen_loop f1 B callback (Suc 0) s1 l1 = Finished (s4, l)
                 \<or> gen_loop f1 B callback (Suc 0) s1 l1 = Unfinished (s4, l))
             \<and> (gen_loop fuel B callback 0 sp initial_locals = Finished (s4, l)
                  \<longleftrightarrow> gen_loop f1 B callback (Suc 0) s1 l1 = Finished (s4, l)))"
    by (elim gen_loop_advance [of fuel B callback 0 sp initial_locals s4 l]) simp_all
  from alt1 cs1 sp(1) c4 enough have cont1: "fl1 = Continue"
    and g1: "gen_loop f1 B callback (Suc 0) s1 l1 = Finished (s4, l)
                 \<or> gen_loop f1 B callback (Suc 0) s1 l1 = Unfinished (s4, l)"
    and iff1: "gen_loop fuel B callback 0 sp initial_locals = Finished (s4, l)
                  \<longleftrightarrow> gen_loop f1 B callback (Suc 0) s1 l1 = Finished (s4, l)"
    by auto
  from cs1 have ne1: "ctx_samples s1 \<noteq> ctx_samples sp" by simp
  note buf1 = loop_body_buffer [OF b1 ne1 sp(3) ap(2)]
  from buf1 sp have st1: "inp_stop s1 = [5, 9]" "antiprompt (params s1) = ap # rest"
    by (simp_all add: same_config_def)
  from buf1 cont1 smp(1) sp(1,2) have l1: "response l1 = []" "delivered l1 = []"
    "map token (completion_result_list l1) = [5]"
    by (auto simp: initial_locals_def token_nth_output)
  \<comment> \<open>second iteration: 7 breaks the match, 5 and 7 are flushed together\<close>
  from g1 cs1 sp(1) c4 enough obtain f2 fl2 s2 l2 where
    nz1: "n_remain s1 \<noteq> 0"
    and b2: "loop_body B callback (Suc 0) s1 l1 = Inr (fl2, s2, l2)"
    and cs2: "ctx_samples s2 = Suc (ctx_samples s1)"
    and alt2: "(fl2 = Break \<and> s4 = s2 \<and> l = l2
                \<and> gen_loop f1 B callback (Suc 0) s1 l1 = Finished (s4, l))
         \<or> (fl2 = Continue
             \<and> (gen_loop f2 B callback (Suc (Suc 0)) s2 l2 = Finished (s4, l)
                 \<or> gen_loop f2 B callback (Suc (Suc 0)) s2 l2 = Unfinished (s4, l))
             \<and> (gen_loop f1 B callback (Suc 0) s1 l1 = Finished (s4, l)
                  \<longleftrightarrow> gen_loop f2 B callback (Suc (Suc 0)) s2 l2 = Finished (s4, l)))"
    by (elim gen_loop_advance [of f1 B callback "Suc 0" s1 l1 s4 l]) simp_all
  from alt2 cs2 cs1 sp(1) c4 enough have cont2: "fl2 = Continue"
    and g2: "gen_loop f2 B callback (Suc (Suc 0)) s2 l2 = Finished (s4, l)
                 \<or> gen_loop f2 B callback (Suc (Suc 0)) s2 l2 = Unfinished (s4, l)"
    and iff2: "gen_loop f1 B callback (Suc 0) s1 l1 = Finished (s4, l)
                  \<longleftrightarrow> gen_loop f2 B callback (Suc (Suc 0)) s2 l2 = Finished (s4, l)"
    by auto
  from cs2 have ne2: "ctx_samples s2 \<noteq> ctx_samples s1" by simp
  note buf2 = loop_body_buffer [OF b2 ne2 st1(2) ap(2)]
  from buf2 st1 have st2: "inp_stop s2 = [5, 9]" "antiprompt (params s2) = ap # rest"
    by (simp_all add: same_config_def)
  from buf2 cont2 have nc2: "\<not> canceled s2" by simp
  have len1: "length (completion_result_list l1) = 1"
    using l1(3) by (metis length_map length_Cons list.size(3) One_nat_def)
  from smp(2) cs1 sp(1) have t2: "fst (llama_sample_token B (ctx_samples s1)) = 7" by simp
  from buf2 cont2 t2 st1(1) l1 len1 have l2: "map token (response l2) = [5, 7]"
    "map token (delivered l2) = (if callback then [5, 7] else [])"
    "completion_result_list l2 = []"
    by (auto simp: token_nth_output)
  \<comment> \<open>third iteration\<close>
  from g2 cs2 cs1 sp(1) c4 enough obtain f3 fl3 s3 l3 where
    nz2: "n_remain s2 \<noteq> 0"
    and b3: "loop_body B callback (Suc (Suc 0)) s2 l2 = Inr (fl3, s3, l3)"
    and cs3: "ctx_samples s3 = Suc (ctx_samples s2)"
    and alt3: "(fl3 = Break \<and> s4 = s3 \<and> l = l3
                \<and> gen_loop f2 B callback (Suc (Suc 0)) s2 l2 = Finished (s4, l))
         \<or> (fl3 = Continue
             \<and> (gen_loop f3 B callback (Suc (Suc (Suc 0))) s3 l3 = Finished (s4, l)
                 \<or> gen_loop f3 B callback (Suc (Suc (Suc 0))) s3 l3 = Unfinished (s4, l))
             \<and> (gen_loop f2 B callback (Suc (Suc 0)) s2 l2 = Finished (s4, l)
                  \<longleftrightarrow> gen_loop f3 B callback (Suc (Suc (Suc 0))) s3 l3
                        = Finished (s4, l)))"
    by (elim gen_loop_advance [of f2 B callback "Suc (Suc 0)" s2 l2 s4 l]) simp_all
  from cs3 have ne3: "ctx_samples s3 \<noteq> ctx_samples s2" by simp
  from smp(3) cs2 cs1 sp(1) have t3: "fst (llama_sample_token B (ctx_samples s2)) = 3" by simp
  \<comment> \<open>the states after one and two iterations\<close>
  have one: "\<exists>s1 l1. generate_response 1 B s input_prompt add_pfx_sfx callback
                     = Unfinished (s1, l1)
            \<and> response l1 = [] \<and> delivered l1 = []
            \<and> map token (completion_result_list l1) = [5]"
  proof -
    from nz0 b1 cont1 nz1 have "gen_loop 1 B callback 0 sp initial_locals = Unfinished (s1, l1)"
      by (intro gen_loop_one) simp_all
    with ne p have "generate_response 1 B s input_prompt add_pfx_sfx callback
        = Unfinished (s1, l1)" by (rule generate_response_Unfinished_intro)
    with l1 show ?thesis by (intro exI [of _ s1] exI [of _ l1]) simp
  qed
  have two: "\<exists>s2 l2. generate_response 2 B s input_prompt add_pfx_sfx callback
                     = Unfinished (s2, l2)
            \<and> map token (response l2) = [5, 7]
            \<and> map token (delivered l2) = (if callback then [5, 7] else [])
            \<and> completion_result_list l2 = []"
  proof -
    from nz0 b1 cont1 nz1 b2 cont2 nz2
    have "gen_loop 2 B callback 0 sp initial_locals = Unfinished (s2, l2)"
      by (intro gen_loop_two [where ?s1.0 = s1 and ?l1.0 = l1]) simp_all
    with ne p have "generate_response 2 B s input_prompt add_pfx_sfx callback
        = Unfinished (s2, l2)" by (rule generate_response_Unfinished_intro)
    with l2 show ?thesis by (intro exI [of _ s2] exI [of _ l2]) simp
  qed
  have three: "if llama_token_eos B = 3 \<or> cancel_requested B 2
          then generate_response fuel B s input_prompt add_pfx_sfx callback = Finished (s', l)
               \<and> ctx_samples s' = ctx_samples s + 3
               \<and> map token (response l) = [5, 7]
               \<and> map token (delivered l) = (if callback then [5, 7] else [])
               \<and> map token (completion_result_list l) = [3]
          else (\<exists>more. map token (response l) = [5, 7, 3] @ more
                  \<and> map token (delivered l)
                      = (if callback then [5, 7, 3] @ more else []))"
  proof (cases "llama_token_eos B = 3 \<or> cancel_requested B 2")
    case True
    with t3 have ex: "fst (llama_sample_token B (ctx_samples s2)) = llama_token_eos B
             \<or> cancel_requested B (Suc (Suc 0))"
      by (auto simp: numeral_2_eq_2)
    from loop_body_exit [OF b3 ne3 ex] have brk: "fl3 = Break"
      and l3: "l3 = l2\<lparr>completion_result_list := completion_result_list l2
                    @ [nth_output B (params s2) (ctx_samples s2)],
                input_noecho := False\<rparr>" by simp_all
    from alt3 brk have e: "s4 = s3" "l = l3"
      and fin: "gen_loop f2 B callback (Suc (Suc 0)) s2 l2 = Finished (s4, l)" by simp_all
    from fin iff2 iff1 iff
    have "generate_response fuel B s input_prompt add_pfx_sfx callback = Finished (s', l)"
      by simp
    moreover from e cs3 cs2 cs1 sp(1) c4 have "ctx_samples s' = ctx_samples s + 3" by simp
    moreover from e l3 l2 t3 have "map token (response l) = [5, 7]"
      "map token (delivered l) = (if callback then [5, 7] else [])"
      "map token (completion_result_list l) = [3]"
      by (simp_all add: token_nth_output)
    ultimately show ?thesis using True by simp
  next
    case False
    then have eos: "llama_token_eos B \<noteq> 3"
      and nc': "\<not> cancel_requested B (Suc (Suc 0))" by (simp_all add: numeral_2_eq_2)
    note buf3 = loop_body_buffer [OF b3 ne3 st2(2) ap(2)]
    from buf3 t3 st2(1) l2 eos nc' nc2 have l3: "map token (response l3) = [5, 7, 3]"
      "map token (delivered l3) = (if callback then [5, 7, 3] else [])"
      by (auto simp: token_nth_output)
    have "\<exists>more. map token (response l) = [5, 7, 3] @ more
                  \<and> map token (delivered l)
                      = (if callback then [5, 7, 3] @ more else [])"
      using alt3
    proof
      assume "fl3 = Break \<and> s4 = s3 \<and> l = l3
                \<and> gen_loop f2 B callback (Suc (Suc 0)) s2 l2 = Finished (s4, l)"
      with l3 show ?thesis by auto
    next
      assume "fl3 = Continue
             \<and> (gen_loop f3 B callback (Suc (Suc (Suc 0))) s3 l3 = Finished (s4, l)
                 \<or> gen_loop f3 B callback (Suc (Suc (Suc 0))) s3 l3 = Unfinished (s4, l))
             \<and> (gen_loop f2 B callback (Suc (Suc 0)) s2 l2 = Finished (s4, l)
                  \<longleftrightarrow> gen_loop f3 B callback (Suc (Suc (Suc 0))) s3 l3
                        = Finished (s4, l))"
      then have "gen_loop f3 B callback (Suc (Suc (Suc 0))) s3 l3 = Finished (s4, l)
                 \<or> gen_loop f3 B callback (Suc (Suc (Suc 0))) s3 l3 = Unfinished (s4, l)"
        by blast
      from gen_loop_response_extends [OF this] l3 show ?thesis by auto
    qed
    with False show ?thesis by simp
  qed
  from one two three show ?thesis by blast
qed

text \<open>The sampler answers 5, 7, 3 and then EOS, which is 2, and nobody cancels:
  nothing is delivered after one iteration, 5 and 7 after two, and the response is
  5, 7, 3.\<close>

theorem partial_match_flushed_witness:
  "\<exists>s' l. inp_stop (demo_session demo_params) = [5, 9]
     \<and> antiprompt (params (demo_session demo_params)) = [''ei'']
     \<and> generate_response 10 (demo_backend [5, 7, 3, 2] None) (demo_session demo_params)
          ''ab'' False True = Finished (s', l)
     \<and> ctx_samples (demo_session demo_params) + 3 \<le> ctx_samples s'
     \<and> llama_token_eos (demo_backend [5, 7, 3, 2] None) \<noteq> 3
     \<and> \<not> cancel_requested (demo_backend [5, 7, 3, 2] None) 2
     \<and> map token (response l) = [5, 7, 3]
     \<and> (\<exists>more. map token (delivered l) = [5, 7, 3] @ more)
     \<and> (\<exists>s1 l1. generate_response 1 (demo_backend [5, 7, 3, 2] None)
                    (demo_session demo_params) ''ab'' False True = Unfinished (s1, l1)
            \<and> response l1 = [] \<and> delivered l1 = []
            \<and> map token (completion_result_list l1) = [5])
     \<and> (\<exists>s2 l2. generate_response 2 (demo_backend [5, 7, 3, 2] None)
                    (demo_session demo_params) ''ab'' False True = Unfinished (s2, l2)
            \<and> map token (response l2) = [5, 7]
            \<and> map token (delivered l2) = [5, 7]
            \<and> completion_result_list l2 = [])"
proof -
  let ?B = "demo_backend [5, 7, 3, 2] None"
  let ?S = "demo_session demo_params"
  have stop: "inp_stop ?S = [5, 9]" by code_simp
  have ap: "antiprompt (params ?S) = ''ei'' # []" "''ei'' \<noteq> []" by code_simp+
  have c0: "ctx_samples ?S = 0" by (simp add: demo_session_def)
  have smp: "fst (llama_sample_token ?B (ctx_samples ?S)) = 5"
    "fst (llama_sample_token ?B (Suc (ctx_samples ?S))) = 7"
    "fst (llama_sample_token ?B (Suc (Suc (ctx_samples ?S)))) = 3"
    by (simp_all add: c0 demo_backend_def)
  have eos: "llama_token_eos ?B \<noteq> 3" by (simp add: demo_backend_def)
  have nc: "\<not> cancel_requested ?B 2" by (simp add: demo_backend_def)
  have ev: "map_option (\<lambda>s. 3 \<le> ctx_samples s) (final_session
              (generate_response 10 ?B ?S ''ab'' False True)) = Some True"
    "returned_tokens (generate_response 10 ?B ?S ''ab'' False True) = Some [5, 7, 3]"
    by code_simp+
  then obtain s' l where run: "generate_response 10 ?B ?S ''ab'' False True = Finished (s', l)"
    and c: "3 \<le> ctx_samples s'" and r: "map token (response l) = [5, 7, 3]"
    by (auto simp: final_session_def returned_tokens_def split: outcome.splits)
  from c c0 have enough: "ctx_samples ?S + 3 \<le> ctx_samples s'" by simp
  note T = partial_match_flushed [OF stop ap smp disjI1 enough, OF run]
  from T have one: "\<exists>s1 l1. generate_response 1 ?B ?S ''ab'' False True = Unfinished (s1, l1)
            \<and> response l1 = [] \<and> delivered l1 = []
            \<and> map token (completion_result_list l1) = [5]" by blast
  from T have two: "\<exists>s2 l2. generate_response 2 ?B ?S ''ab'' False True = Unfinished (s2, l2)
            \<and> map token (response l2) = [5, 7]
            \<and> map token (delivered l2) = [5, 7]
            \<and> completion_result_list l2 = []" by simp
  from T eos nc have d: "\<exists>more. map token (delivered l) = [5, 7, 3] @ more" by auto
  show ?thesis
    apply (rule exI [of _ s'])
    apply (rule exI [of _ l])
    using stop ap(1) eos nc run enough r d one two
    apply simp
    done
qed

text \<open>
  The claim as stated fails when the call is cancelled in the iteration that samples
  3: the sampler has produced 5, 7, 3, the call returns, and the caller has
  received 5 and 7 only. The same happens on a backend whose EOS token is 3.
\<close>

theorem partial_match_flushed_counterexample:
  "inp_stop (demo_session demo_params) = [5, 9]
   \<and> map_option ctx_samples (final_session (generate_response 10
        (demo_backend [5, 7, 3] (Some 2)) (demo_session demo_params) ''ab'' False True))
     = Some 3
   \<and> returned_tokens (generate_response 10 (demo_backend [5, 7, 3] (Some 2))
        (demo_session demo_params) ''ab'' False True) = Some [5, 7]
   \<and> callback_tokens (generate_response 10 (demo_backend [5, 7, 3] (Some 2))
        (demo_session demo_params) ''ab'' False True) = Some [5, 7]
   \<and> map_option ctx_samples (final_session (generate_response 10
        ((demo_backend [5, 7, 3] None)\<lparr>llama_token_eos := 3\<rparr>)
        (demo_session demo_params) ''ab'' False True))
     = Some 3
   \<and> returned_tokens (generate_response 10
        ((demo_backend [5, 7, 3] None)\<lparr>llama_token_eos := 3\<rparr>)
        (demo_session demo_params) ''ab'' False True) = Some [5, 7]"
  by code_simp

end
